theory Spec2Isabelle
  imports Complex_Main
begin

section \<open>The platform: ECMAScript numbers and dates\<close>

text \<open>
  The program (\<^verbatim>\<open>src/app.js\<close>) is a compound-growth calculator that walks over calendar
  days. Every \<^verbatim>\<open>Date\<close> it handles is built by \<^verbatim>\<open>new Date(year, month, day)\<close>, so it is a
  local midnight and is determined by its calendar day. A \<^verbatim>\<open>Date\<close> is therefore modelled by
  its day number, the quantity \<^verbatim>\<open>Day(t)\<close> of the ECMAScript date algorithms (day 0 is
  1 January 1970), and the accessors are the ECMAScript functions on that number.

  This first model takes every date to be in range and every amount to be a real number:
  the proleptic Gregorian calendar over all of \<open>int\<close>, without the legacy rule of the
  \<^verbatim>\<open>Date\<close> constructor for the years 0 to 99, without the limit of 100,000,000 days
  around the epoch beyond which a \<^verbatim>\<open>Date\<close> is invalid, without time zones, and without
  the rounding of IEEE doubles. It carries the claims about the calendar arithmetic and
  the event predicates. The section on the full platform transcribes the program a second
  time with invalid dates, the legacy rule, skipped local days and double-precision
  arithmetic; the claims about the number of recorded points and about their rounding are
  settled there.
\<close>

type_synonym date = int

definition DaysInYear :: "int \<Rightarrow> int" where
  "DaysInYear y =
     (if y mod 4 \<noteq> 0 then 365
      else if y mod 100 \<noteq> 0 then 366
      else if y mod 400 \<noteq> 0 then 365
      else 366)"

definition DayFromYear :: "int \<Rightarrow> int" where
  "DayFromYear y =
     365 * (y - 1970) + (y - 1969) div 4 - (y - 1901) div 100 + (y - 1601) div 400"

text \<open>
  \<^verbatim>\<open>YearFromTime(t)\<close> is the largest year whose first day is not after \<open>t\<close>. It is computed
  by a downward search from an estimate that is never too small.
\<close>

function yearDown :: "int \<Rightarrow> int \<Rightarrow> int" where
  "yearDown y t = (if DayFromYear y \<le> t then y else yearDown (y - 1) t)"
  by pat_completeness auto

text \<open>
  The search ends because the first days of consecutive years are 365 or 366 days apart:
  \<open>DayFromYear\<close> grows with the year.
\<close>

lemma div_succ:
  fixes a k :: int
  assumes "0 < k"
  shows "(a + 1) div k = a div k + (if (a + 1) mod k = 0 then 1 else 0)"
proof (cases "a mod k + 1 = k")
  case True
  have "a + 1 = k * (a div k + 1) + 0"
  proof -
    have "a = k * (a div k) + a mod k" by simp
    then have "a + 1 = k * (a div k) + k" using True by linarith
    then show ?thesis by (simp add: algebra_simps)
  qed
  then have "(a + 1) div k = a div k + 1" "(a + 1) mod k = 0"
    using assms int_div_pos_eq [of "a + 1" k "a div k + 1" 0]
      int_mod_pos_eq [of "a + 1" k "a div k + 1" 0] by simp_all
  then show ?thesis by simp
next
  case False
  have r: "0 \<le> a mod k" "a mod k < k" using assms by simp_all
  then have lt: "a mod k + 1 < k" "0 \<le> a mod k + 1" using False by linarith+
  have "a + 1 = k * (a div k) + (a mod k + 1)" by simp
  then have "(a + 1) div k = a div k" "(a + 1) mod k = a mod k + 1"
    using lt int_div_pos_eq [of "a + 1" k "a div k" "a mod k + 1"]
      int_mod_pos_eq [of "a + 1" k "a div k" "a mod k + 1"] by simp_all
  then show ?thesis using lt r by simp
qed

lemma mod_shift_4: "(y - 1968) mod 4 = (y::int) mod 4"
  using mod_mult_self2 [of y 4 "-492"] by simp

lemma mod_shift_100: "(y - 1900) mod 100 = (y::int) mod 100"
  using mod_mult_self2 [of y 100 "-19"] by simp

lemma mod_shift_400: "(y - 1600) mod 400 = (y::int) mod 400"
  using mod_mult_self2 [of y 400 "-4"] by simp

lemma mod_400_100: "(y::int) mod 400 = 0 \<Longrightarrow> y mod 100 = 0"
  using mod_mod_cancel [of 100 400 y] by simp

lemma mod_100_4: "(y::int) mod 100 = 0 \<Longrightarrow> y mod 4 = 0"
  using mod_mod_cancel [of 4 100 y] by simp

lemma DayFromYear_step: "DayFromYear (y + 1) = DayFromYear y + DaysInYear y"
proof -
  have a: "(y + 1 - 1969) div 4 = (y - 1969) div 4 + (if y mod 4 = 0 then 1 else 0)"
    using div_succ [of 4 "y - 1969"] mod_shift_4 [of y] by (simp add: algebra_simps)
  have b: "(y + 1 - 1901) div 100 = (y - 1901) div 100 + (if y mod 100 = 0 then 1 else 0)"
    using div_succ [of 100 "y - 1901"] mod_shift_100 [of y] by (simp add: algebra_simps)
  have c: "(y + 1 - 1601) div 400 = (y - 1601) div 400 + (if y mod 400 = 0 then 1 else 0)"
    using div_succ [of 400 "y - 1601"] mod_shift_400 [of y] by (simp add: algebra_simps)
  show ?thesis
    unfolding DayFromYear_def DaysInYear_def a b c
    using mod_400_100 [of y] mod_100_4 [of y] by auto
qed

lemma DaysInYear_bounds: "365 \<le> DaysInYear y" "DaysInYear y \<le> 366"
  by (simp_all add: DaysInYear_def)

lemma DayFromYear_pred: "DayFromYear (y - 1) = DayFromYear y - DaysInYear (y - 1)"
  using DayFromYear_step [of "y - 1"] by simp

lemma DayFromYear_growth:
  "y \<le> y' \<Longrightarrow> DayFromYear y + 365 * (y' - y) \<le> DayFromYear y'
      \<and> DayFromYear y' \<le> DayFromYear y + 366 * (y' - y)"
proof (induction y' rule: int_ge_induct)
  case base
  show ?case by simp
next
  case (step i)
  then show ?case
    using DayFromYear_step [of i] DaysInYear_bounds [of i] by (simp add: algebra_simps)
qed

lemma DayFromYear_mono: "y \<le> y' \<Longrightarrow> DayFromYear y \<le> DayFromYear y'"
  using DayFromYear_growth [of y y'] by linarith

lemma DayFromYear_less: "DayFromYear y' < DayFromYear (y + 1) \<Longrightarrow> y' \<le> y"
  using DayFromYear_mono [of "y + 1" y'] by linarith

termination yearDown
proof (relation "measure (\<lambda>(y, t). nat (DayFromYear y - t))")
  show "wf (measure (\<lambda>(y, t). nat (DayFromYear y - t)))" by simp
next
  fix y t :: int
  assume "\<not> DayFromYear y \<le> t"
  then show "((y - 1, t), (y, t)) \<in> measure (\<lambda>(y, t). nat (DayFromYear y - t))"
    using DayFromYear_pred [of y] DaysInYear_bounds [of "y - 1"] by simp
qed

definition YearFromTime :: "int \<Rightarrow> int" where
  "YearFromTime t = yearDown (1970 + (if 0 \<le> t then t div 365 else t div 366)) t"

definition InLeapYear :: "int \<Rightarrow> int" where
  "InLeapYear t = (if DaysInYear (YearFromTime t) = 366 then 1 else 0)"

definition DayWithinYear :: "int \<Rightarrow> int" where
  "DayWithinYear t = t - DayFromYear (YearFromTime t)"

definition MonthFromTime :: "int \<Rightarrow> int" where
  "MonthFromTime t =
     (let d = DayWithinYear t; l = InLeapYear t in
      if d < 31 then 0
      else if d < 59 + l then 1
      else if d < 90 + l then 2
      else if d < 120 + l then 3
      else if d < 151 + l then 4
      else if d < 181 + l then 5
      else if d < 212 + l then 6
      else if d < 243 + l then 7
      else if d < 273 + l then 8
      else if d < 304 + l then 9
      else if d < 334 + l then 10
      else 11)"

definition DateFromTime :: "int \<Rightarrow> int" where
  "DateFromTime t =
     (let d = DayWithinYear t; l = InLeapYear t; m = MonthFromTime t in
      if m = 0 then d + 1
      else if m = 1 then d - 30
      else if m = 2 then d - 58 - l
      else if m = 3 then d - 89 - l
      else if m = 4 then d - 119 - l
      else if m = 5 then d - 150 - l
      else if m = 6 then d - 180 - l
      else if m = 7 then d - 211 - l
      else if m = 8 then d - 242 - l
      else if m = 9 then d - 272 - l
      else if m = 10 then d - 303 - l
      else d - 333 - l)"

definition WeekDay :: "int \<Rightarrow> int" where
  "WeekDay t = (t + 4) mod 7"

text \<open>
  \<^verbatim>\<open>MakeDay(year, month, date)\<close>: months outside 0..11 carry into the year, and the day
  of the month is an offset from the first of the month, so that day 0 is the last day of
  the month before and a day past the end of the month runs into the next one.
\<close>

definition DaysBeforeMonth :: "int \<Rightarrow> int \<Rightarrow> int" where
  "DaysBeforeMonth ym mn =
     (let l = (if DaysInYear ym = 366 then 1 else 0) in
      if mn = 0 then 0
      else if mn = 1 then 31
      else if mn = 2 then 59 + l
      else if mn = 3 then 90 + l
      else if mn = 4 then 120 + l
      else if mn = 5 then 151 + l
      else if mn = 6 then 181 + l
      else if mn = 7 then 212 + l
      else if mn = 8 then 243 + l
      else if mn = 9 then 273 + l
      else if mn = 10 then 304 + l
      else 334 + l)"

definition MakeDay :: "int \<Rightarrow> int \<Rightarrow> int \<Rightarrow> int" where
  "MakeDay year month dt =
     (let ym = year + month div 12; mn = month mod 12 in
      DayFromYear ym + DaysBeforeMonth ym mn + dt - 1)"

text \<open>The methods of \<^verbatim>\<open>Date\<close> and the functions of \<^verbatim>\<open>Math\<close> that the program calls.\<close>

definition newDate :: "int \<Rightarrow> int \<Rightarrow> int \<Rightarrow> date" where
  "newDate year monthIndex day = MakeDay year monthIndex day"

definition getFullYear :: "date \<Rightarrow> int" where
  "getFullYear d = YearFromTime d"

definition getMonth :: "date \<Rightarrow> int" where
  "getMonth d = MonthFromTime d"

definition getDate :: "date \<Rightarrow> int" where
  "getDate d = DateFromTime d"

definition getDay :: "date \<Rightarrow> int" where
  "getDay d = WeekDay d"

definition setDate :: "date \<Rightarrow> int \<Rightarrow> date" where
  "setDate d dt = MakeDay (YearFromTime d) (MonthFromTime d) dt"

definition msPerDay :: int where
  "msPerDay = 86400000"

definition Date_UTC :: "int \<Rightarrow> int \<Rightarrow> int \<Rightarrow> int" where
  "Date_UTC year monthIndex day = MakeDay year monthIndex day * msPerDay"

definition Math_round :: "real \<Rightarrow> int" where
  "Math_round x = \<lfloor>x + 1 / 2\<rfloor>"

definition Math_floor :: "real \<Rightarrow> int" where
  "Math_floor x = \<lfloor>x\<rfloor>"

text \<open>The remainder operator \<^verbatim>\<open>%\<close> truncates: its result has the sign of the dividend.\<close>

definition js_rem :: "int \<Rightarrow> int \<Rightarrow> int" where
  "js_rem a b = sgn a * (\<bar>a\<bar> mod \<bar>b\<bar>)"

text \<open>
  \<^verbatim>\<open>Number(x.toFixed(2))\<close>: the nearest multiple of 0.01, a tie going away from zero
  (\<^verbatim>\<open>toFixed\<close> rounds the magnitude and puts the sign back).
\<close>

definition toFixed2 :: "real \<Rightarrow> real" where
  "toFixed2 x = sgn x * real_of_int \<lfloor>\<bar>x\<bar> * 100 + 1 / 2\<rfloor> / 100"

text \<open>
  \<^verbatim>\<open>toLocaleDateString()\<close> renders the calendar day in the user's locale; the label is
  modelled by the three components it renders.
\<close>

definition toLocaleDateString :: "date \<Rightarrow> int \<times> int \<times> int" where
  "toLocaleDateString d = (getFullYear d, getMonth d, getDate d)"

section \<open>The program\<close>

definition MS_PER_DAY :: int where
  "MS_PER_DAY = 24 * 60 * 60 * 1000"

definition normalizeDate :: "date \<Rightarrow> date" where
  "normalizeDate d = newDate (getFullYear d) (getMonth d) (getDate d)"

definition addDays :: "date \<Rightarrow> int \<Rightarrow> date" where
  "addDays d days = (let next = setDate d (getDate d + days) in normalizeDate next)"

definition daysBetween :: "date \<Rightarrow> date \<Rightarrow> int" where
  "daysBetween start end =
     (let utcStart = Date_UTC (getFullYear start) (getMonth start) (getDate start);
          utcEnd = Date_UTC (getFullYear end) (getMonth end) (getDate end)
      in Math_round (real_of_int (utcEnd - utcStart) / real_of_int MS_PER_DAY))"

definition daysInMonth :: "int \<Rightarrow> int \<Rightarrow> int" where
  "daysInMonth year monthIndex = getDate (newDate year (monthIndex + 1) 0)"

definition addMonths :: "date \<Rightarrow> int \<Rightarrow> date" where
  "addMonths d months =
     (let year = getFullYear d;
          month = getMonth d;
          targetMonth = month + months;
          targetYear = year + Math_floor (real_of_int targetMonth / 12);
          normalizedMonth = js_rem (js_rem targetMonth 12 + 12) 12;
          day = min (getDate d) (daysInMonth targetYear normalizedMonth)
      in newDate targetYear normalizedMonth day)"

definition addYears :: "date \<Rightarrow> int \<Rightarrow> date" where
  "addYears d years = addMonths d (years * 12)"

definition isWeekday :: "date \<Rightarrow> bool" where
  "isWeekday d = (let day = getDay d in day \<ge> 1 \<and> day \<le> 5)"

definition isMonthlyEvent :: "date \<Rightarrow> date \<Rightarrow> bool" where
  "isMonthlyEvent d startDate =
     (let targetDay = min (getDate startDate) (daysInMonth (getFullYear d) (getMonth d))
      in getDate d = targetDay)"

definition isWeeklyEvent :: "date \<Rightarrow> date \<Rightarrow> bool" where
  "isWeeklyEvent d startDate = (js_rem (daysBetween startDate d) 7 = 0)"

definition isEventDay :: "date \<Rightarrow> date \<Rightarrow> string \<Rightarrow> bool" where
  "isEventDay d startDate frequency =
     (if frequency = ''weekday'' then isWeekday d
      else if frequency = ''weekly'' then isWeeklyEvent d startDate
      else isMonthlyEvent d startDate)"

definition getEndDate :: "date \<Rightarrow> int \<Rightarrow> string \<Rightarrow> date" where
  "getEndDate startDate timeValue timeUnit =
     (if timeUnit = ''weeks'' then addDays startDate (timeValue * 7)
      else if timeUnit = ''months'' then addMonths startDate timeValue
      else addYears startDate timeValue)"

definition getCompoundAnchor :: "date \<Rightarrow> string \<Rightarrow> date" where
  "getCompoundAnchor startDate compoundFrequency =
     (if compoundFrequency = ''weekly'' then addDays startDate 7
      else if compoundFrequency = ''monthly'' then addMonths startDate 1
      else startDate)"

definition applyInterest :: "real \<Rightarrow> real \<Rightarrow> real" where
  "applyInterest balance ratePerPeriod =
     (if ratePerPeriod \<le> 0 then balance
      else balance * (1 + ratePerPeriod / 100))"

section \<open>Facts about the calendar\<close>

declare yearDown.simps [simp del]

lemma yearDown_spec:
  "t < DayFromYear (y + 1) \<Longrightarrow>
     DayFromYear (yearDown y t) \<le> t \<and> t < DayFromYear (yearDown y t + 1)"
proof (induction y t rule: yearDown.induct)
  case (1 y t)
  show ?case
  proof (cases "DayFromYear y \<le> t")
    case True
    then show ?thesis using "1.prems" by (simp add: yearDown.simps [of y t])
  next
    case False
    then have "t < DayFromYear (y - 1 + 1)" by simp
    with "1.IH" False show ?thesis by (simp add: yearDown.simps [of y t])
  qed
qed

lemma year_estimate: "t < DayFromYear (1970 + (if 0 \<le> t then t div 365 else t div 366) + 1)"
proof (cases "0 \<le> t")
  case True
  have "DayFromYear 1970 + 365 * (1970 + t div 365 + 1 - 1970) \<le> DayFromYear (1970 + t div 365 + 1)"
    using True DayFromYear_growth [of 1970 "1970 + t div 365 + 1"]
    by (simp add: pos_imp_zdiv_nonneg_iff)
  moreover have "DayFromYear 1970 = 0" by (simp add: DayFromYear_def)
  moreover have "t < 365 * (t div 365 + 1)"
    using pos_mod_bound [of 365 t] mult_div_mod_eq [of 365 t] by simp
  ultimately show ?thesis using True by simp
next
  case False
  then have neg: "t div 366 + 1 \<le> 0"
    using div_neg_pos_less0 [of t 366] by simp
  have "DayFromYear 1970 \<le> DayFromYear (1970 + t div 366 + 1) + 366 * (1970 - (1970 + t div 366 + 1))"
    using neg DayFromYear_growth [of "1970 + t div 366 + 1" 1970] by simp
  moreover have "DayFromYear 1970 = 0" by (simp add: DayFromYear_def)
  moreover have "t < 366 * (t div 366 + 1)"
    using pos_mod_bound [of 366 t] mult_div_mod_eq [of 366 t] by simp
  ultimately show ?thesis using False by simp
qed

lemma YearFromTime_spec:
  "DayFromYear (YearFromTime t) \<le> t \<and> t < DayFromYear (YearFromTime t + 1)"
  unfolding YearFromTime_def using yearDown_spec [OF year_estimate] .

lemma YearFromTime_unique:
  assumes "DayFromYear y \<le> t" and "t < DayFromYear (y + 1)"
  shows "YearFromTime t = y"
proof -
  have "DayFromYear (YearFromTime t) < DayFromYear (y + 1)"
    using YearFromTime_spec [of t] assms by linarith
  then have a: "YearFromTime t \<le> y" by (rule DayFromYear_less)
  have "DayFromYear y < DayFromYear (YearFromTime t + 1)"
    using YearFromTime_spec [of t] assms by linarith
  then have "y \<le> YearFromTime t" by (rule DayFromYear_less)
  with a show ?thesis by simp
qed

lemma DayWithinYear_bounds: "0 \<le> DayWithinYear t" "DayWithinYear t < DaysInYear (YearFromTime t)"
  using YearFromTime_spec [of t] DayFromYear_step [of "YearFromTime t"]
  by (simp_all add: DayWithinYear_def)

lemma InLeapYear_bounds: "0 \<le> InLeapYear t" "InLeapYear t \<le> 1"
  by (simp_all add: InLeapYear_def)

lemma MonthFromTime_range: "0 \<le> MonthFromTime t" "MonthFromTime t < 12"
  by (simp_all add: MonthFromTime_def Let_def)

lemma month_cases:
  "0 \<le> mn \<Longrightarrow> mn < 12 \<Longrightarrow>
     mn = 0 \<or> mn = 1 \<or> mn = 2 \<or> mn = 3 \<or> mn = 4 \<or> mn = 5 \<or> mn = 6 \<or> mn = 7
       \<or> mn = 8 \<or> mn = 9 \<or> mn = 10 \<or> mn = (11::int)"
  by arith

lemma day_of_year_split:
  "DaysBeforeMonth (YearFromTime t) (MonthFromTime t) + DateFromTime t - 1 = DayWithinYear t"
proof -
  have l: "(if DaysInYear (YearFromTime t) = 366 then 1 else 0) = InLeapYear t"
    by (simp add: InLeapYear_def)
  show ?thesis
    using month_cases [OF MonthFromTime_range [of t]]
    by (elim disjE) (simp_all add: DaysBeforeMonth_def DateFromTime_def Let_def l)
qed

lemma MakeDay_in_range:
  "0 \<le> mn \<Longrightarrow> mn < 12 \<Longrightarrow> MakeDay y mn dt = DayFromYear y + DaysBeforeMonth y mn + dt - 1"
  by (simp add: MakeDay_def Let_def)

lemma MakeDay_components:
  "MakeDay (YearFromTime t) (MonthFromTime t) (DateFromTime t + k) = t + k"
proof -
  have "MakeDay (YearFromTime t) (MonthFromTime t) (DateFromTime t + k)
      = DayFromYear (YearFromTime t)
        + (DaysBeforeMonth (YearFromTime t) (MonthFromTime t) + DateFromTime t - 1) + k"
    using MonthFromTime_range [of t] by (simp add: MakeDay_in_range)
  also have "\<dots> = t + k"
    unfolding day_of_year_split by (simp add: DayWithinYear_def)
  finally show ?thesis .
qed

text \<open>The month lengths of the Gregorian calendar, as a table to compare against.\<close>

definition monthLength :: "int \<Rightarrow> int \<Rightarrow> int" where
  "monthLength y mn =
     (if mn = 1 then (if DaysInYear y = 366 then 29 else 28)
      else if mn = 3 \<or> mn = 5 \<or> mn = 8 \<or> mn = 10 then 30
      else 31)"

lemma DaysInYear_cases: "DaysInYear y = 365 \<or> DaysInYear y = 366"
  by (simp add: DaysInYear_def)

lemma DaysBeforeMonth_nonneg:
  assumes "0 \<le> mn" "mn < 12"
  shows "0 \<le> DaysBeforeMonth y mn"
  using month_cases [OF assms]
  by (elim disjE) (simp_all add: DaysBeforeMonth_def)

lemma DaysBeforeMonth_upper:
  assumes "0 \<le> mn" "mn < 12"
  shows "DaysBeforeMonth y mn + monthLength y mn \<le> DaysInYear y"
  using month_cases [OF assms] DaysInYear_cases [of y]
  by (elim disjE) (simp_all add: DaysBeforeMonth_def monthLength_def)

lemma YearFromTime_MakeDay:
  assumes "0 \<le> mn" "mn < 12" "1 \<le> dt" "dt \<le> monthLength y mn"
  shows "YearFromTime (MakeDay y mn dt) = y"
proof (rule YearFromTime_unique)
  show "DayFromYear y \<le> MakeDay y mn dt"
    using assms DaysBeforeMonth_nonneg [OF assms(1,2), of y] by (simp add: MakeDay_in_range)
  show "MakeDay y mn dt < DayFromYear (y + 1)"
    using assms DaysBeforeMonth_upper [OF assms(1,2), of y]
    by (simp add: MakeDay_in_range DayFromYear_step)
qed

lemma DayWithinYear_MakeDay:
  assumes "0 \<le> mn" "mn < 12" "1 \<le> dt" "dt \<le> monthLength y mn"
  shows "DayWithinYear (MakeDay y mn dt) = DaysBeforeMonth y mn + dt - 1"
  unfolding DayWithinYear_def YearFromTime_MakeDay [OF assms]
  using assms(1,2) by (simp add: MakeDay_in_range)

lemma InLeapYear_MakeDay:
  assumes "0 \<le> mn" "mn < 12" "1 \<le> dt" "dt \<le> monthLength y mn"
  shows "InLeapYear (MakeDay y mn dt) = (if DaysInYear y = 366 then 1 else 0)"
  unfolding InLeapYear_def YearFromTime_MakeDay [OF assms] by simp

lemma MonthFromTime_eqI:
  assumes "0 \<le> mn" "mn < 12"
    and "DaysBeforeMonth (YearFromTime t) mn \<le> DayWithinYear t"
    and "DayWithinYear t < DaysBeforeMonth (YearFromTime t) mn + monthLength (YearFromTime t) mn"
  shows "MonthFromTime t = mn"
proof (cases "DaysInYear (YearFromTime t) = 366")
  case True
  show ?thesis
    using month_cases [OF assms(1,2)] assms(3,4)
    by (elim disjE)
      (simp_all add: DaysBeforeMonth_def monthLength_def MonthFromTime_def InLeapYear_def True)
next
  case False
  show ?thesis
    using month_cases [OF assms(1,2)] assms(3,4)
    by (elim disjE)
      (simp_all add: DaysBeforeMonth_def monthLength_def MonthFromTime_def InLeapYear_def False)
qed

lemma MonthFromTime_MakeDay:
  assumes "0 \<le> mn" "mn < 12" "1 \<le> dt" "dt \<le> monthLength y mn"
  shows "MonthFromTime (MakeDay y mn dt) = mn"
proof (rule MonthFromTime_eqI [OF assms(1,2)])
  show "DaysBeforeMonth (YearFromTime (MakeDay y mn dt)) mn \<le> DayWithinYear (MakeDay y mn dt)"
    unfolding YearFromTime_MakeDay [OF assms] DayWithinYear_MakeDay [OF assms]
    using assms(3) by simp
  show "DayWithinYear (MakeDay y mn dt)
      < DaysBeforeMonth (YearFromTime (MakeDay y mn dt)) mn
        + monthLength (YearFromTime (MakeDay y mn dt)) mn"
    unfolding YearFromTime_MakeDay [OF assms] DayWithinYear_MakeDay [OF assms]
    using assms(4) by simp
qed

lemma DateFromTime_MakeDay:
  assumes "0 \<le> mn" "mn < 12" "1 \<le> dt" "dt \<le> monthLength y mn"
  shows "DateFromTime (MakeDay y mn dt) = dt"
  unfolding DateFromTime_def DayWithinYear_MakeDay [OF assms] InLeapYear_MakeDay [OF assms]
    MonthFromTime_MakeDay [OF assms]
  using month_cases [OF assms(1,2)]
  by (elim disjE) (simp_all add: DaysBeforeMonth_def Let_def)

lemma DaysBeforeMonth_step:
  assumes "0 \<le> mn" "mn < 11"
  shows "DaysBeforeMonth y (mn + 1) = DaysBeforeMonth y mn + monthLength y mn"
proof -
  have "mn < 12" using assms by simp
  from month_cases [OF assms(1) this] assms(2) show ?thesis
    by (elim disjE) (simp_all add: DaysBeforeMonth_def monthLength_def)
qed

lemma DaysBeforeMonth_last: "DaysBeforeMonth y 11 + monthLength y 11 = DaysInYear y"
  using DaysInYear_cases [of y] by (auto simp add: DaysBeforeMonth_def monthLength_def)

lemma monthLength_bounds: "28 \<le> monthLength y mn" "monthLength y mn \<le> 31"
  by (simp_all add: monthLength_def)

lemma DateFromTime_lower: "1 \<le> DateFromTime t"
proof -
  have l: "(if DaysInYear (YearFromTime t) = 366 then 1 else 0) = InLeapYear t"
    by (simp add: InLeapYear_def)
  have "DaysBeforeMonth (YearFromTime t) (MonthFromTime t) \<le> DayWithinYear t"
    using DayWithinYear_bounds(1) [of t] InLeapYear_bounds [of t]
    by (simp add: DaysBeforeMonth_def MonthFromTime_def Let_def l)
  then show ?thesis using day_of_year_split [of t] by linarith
qed

lemma DateFromTime_upper: "DateFromTime t \<le> monthLength (YearFromTime t) (MonthFromTime t)"
proof -
  have l: "(if DaysInYear (YearFromTime t) = 366 then 1 else 0) = InLeapYear t"
    by (simp add: InLeapYear_def)
  have d: "DaysInYear (YearFromTime t) = 365 + InLeapYear t"
    using DaysInYear_cases [of "YearFromTime t"] by (auto simp add: InLeapYear_def)
  have "DayWithinYear t < DaysBeforeMonth (YearFromTime t) (MonthFromTime t)
      + monthLength (YearFromTime t) (MonthFromTime t)"
    using DayWithinYear_bounds(2) [of t] InLeapYear_bounds [of t]
    by (simp add: DaysBeforeMonth_def monthLength_def MonthFromTime_def Let_def l d)
  then show ?thesis using day_of_year_split [of t] by linarith
qed

section \<open>Facts about the date functions of the program\<close>

lemma normalizeDate_id: "normalizeDate d = d"
  using MakeDay_components [of d 0]
  by (simp add: normalizeDate_def newDate_def getFullYear_def getMonth_def getDate_def)

lemma addDays_plus: "addDays d n = d + n"
  using MakeDay_components [of d n]
  by (simp add: addDays_def setDate_def getDate_def normalizeDate_id)

lemma Date_UTC_components: "Date_UTC (getFullYear d) (getMonth d) (getDate d) = d * msPerDay"
  using MakeDay_components [of d 0]
  by (simp add: Date_UTC_def getFullYear_def getMonth_def getDate_def)

lemma daysBetween_diff: "daysBetween s e = e - s"
proof -
  have "e * msPerDay - s * msPerDay = (e - s) * MS_PER_DAY"
    by (simp add: msPerDay_def MS_PER_DAY_def algebra_simps)
  then have "real_of_int (e * msPerDay - s * msPerDay) / real_of_int MS_PER_DAY = real_of_int (e - s)"
    by (simp add: MS_PER_DAY_def)
  then show ?thesis
    by (simp add: daysBetween_def Date_UTC_components Math_round_def Let_def)
qed

lemma js_rem_zero_iff: "js_rem a 7 = 0 \<longleftrightarrow> a mod 7 = 0"
proof -
  have "\<bar>a\<bar> mod 7 = 0 \<longleftrightarrow> a mod 7 = 0"
    by (simp add: mod_eq_0_iff_dvd)
  then show ?thesis by (auto simp add: js_rem_def sgn_if)
qed

lemma js_rem_normalize: "js_rem (js_rem a 12 + 12) 12 = a mod 12"
proof (cases "0 \<le> a")
  case True
  then have "js_rem a 12 = a mod 12" by (simp add: js_rem_def sgn_if)
  moreover have "0 \<le> a mod 12" by simp
  ultimately show ?thesis by (simp add: js_rem_def sgn_if)
next
  case False
  then have neg: "a < 0" by simp
  have r: "js_rem a 12 = - ((- a) mod 12)" using neg by (simp add: js_rem_def sgn_if)
  have b: "0 \<le> (- a) mod 12" "(- a) mod 12 < 12" by simp_all
  then have pos: "0 < js_rem a 12 + 12" using r by linarith
  then have "js_rem (js_rem a 12 + 12) 12 = (js_rem a 12 + 12) mod 12"
    by (simp add: js_rem_def sgn_if)
  also have "\<dots> = (- ((- a) mod 12)) mod 12" by (simp add: r)
  also have "\<dots> = a mod 12" by (simp add: mod_minus_eq)
  finally show ?thesis .
qed

lemma Math_floor_div: "Math_floor (real_of_int a / 12) = a div 12"
  using floor_divide_of_int_eq [of a 12, where ?'a = real] by (simp add: Math_floor_def)

lemma daysInMonth_table:
  assumes "0 \<le> mn" "mn < 12"
  shows "daysInMonth y mn = monthLength y mn"
proof -
  have last: "monthLength y mn \<le> monthLength y mn" "1 \<le> monthLength y mn"
    using monthLength_bounds [of y mn] by simp_all
  have "MakeDay y (mn + 1) 0 = MakeDay y mn (monthLength y mn)"
  proof (cases "mn < 11")
    case True
    then show ?thesis
      using assms DaysBeforeMonth_step [of mn y] by (simp add: MakeDay_in_range)
  next
    case False
    then have mn: "mn = 11" using assms by simp
    have "MakeDay y 12 0 = DayFromYear (y + 1) - 1"
      by (simp add: MakeDay_def DaysBeforeMonth_def)
    then show ?thesis
      using DaysBeforeMonth_last [of y]
      by (simp add: mn MakeDay_in_range DayFromYear_step)
  qed
  then show ?thesis
    using DateFromTime_MakeDay [OF assms last(2,1)]
    by (simp add: daysInMonth_def newDate_def getDate_def)
qed

lemma addMonths_eq:
  "addMonths d n =
     MakeDay (getFullYear d + (getMonth d + n) div 12) ((getMonth d + n) mod 12)
       (min (getDate d)
          (monthLength (getFullYear d + (getMonth d + n) div 12) ((getMonth d + n) mod 12)))"
  by (simp add: addMonths_def Let_def js_rem_normalize Math_floor_div daysInMonth_table newDate_def)

lemma addMonths_day_valid:
  "1 \<le> min (getDate d) (monthLength y mn)" "min (getDate d) (monthLength y mn) \<le> monthLength y mn"
  using DateFromTime_lower [of d] monthLength_bounds [of y mn] by (simp_all add: getDate_def)

lemma getFullYear_addMonths:
  "getFullYear (addMonths d n) = getFullYear d + (getMonth d + n) div 12"
  unfolding addMonths_eq getFullYear_def [of "MakeDay _ _ _"]
  by (rule YearFromTime_MakeDay [OF _ _ addMonths_day_valid]) simp_all

lemma getMonth_addMonths:
  "getMonth (addMonths d n) = (getMonth d + n) mod 12"
  unfolding addMonths_eq getMonth_def [of "MakeDay _ _ _"]
  by (rule MonthFromTime_MakeDay [OF _ _ addMonths_day_valid]) simp_all

lemma getDate_addMonths:
  "getDate (addMonths d n) =
     min (getDate d)
       (monthLength (getFullYear d + (getMonth d + n) div 12) ((getMonth d + n) mod 12))"
  unfolding addMonths_eq getDate_def [of "MakeDay _ _ _"]
  by (rule DateFromTime_MakeDay [OF _ _ addMonths_day_valid]) simp_all

text \<open>The first day of the month with running index \<open>12 * year + month\<close>.\<close>

definition monthStart :: "int \<Rightarrow> int" where
  "monthStart k = DayFromYear (k div 12) + DaysBeforeMonth (k div 12) (k mod 12)"

lemma MakeDay_monthStart: "MakeDay y m dt = monthStart (12 * y + m) + dt - 1"
proof -
  have "(12 * y + m) div 12 = y + m div 12" by simp
  moreover have "(12 * y + m) mod 12 = m mod 12" by simp
  ultimately show ?thesis by (simp add: MakeDay_def monthStart_def Let_def)
qed

lemma monthStart_step: "monthStart (k + 1) = monthStart k + monthLength (k div 12) (k mod 12)"
proof (cases "k mod 12 < 11")
  case True
  have m: "(k + 1) mod 12 = k mod 12 + 1"
    using True int_mod_pos_eq [of "k + 1" 12 "k div 12" "k mod 12 + 1"] by simp
  have d: "(k + 1) div 12 = k div 12"
    using True int_div_pos_eq [of "k + 1" 12 "k div 12" "k mod 12 + 1"] by simp
  have "0 \<le> k mod 12" by simp
  from DaysBeforeMonth_step [OF this True, of "k div 12"] show ?thesis
    unfolding monthStart_def d m by simp
next
  case False
  then have e: "k mod 12 = 11" using pos_mod_bound [of 12 k] by linarith
  have m: "(k + 1) mod 12 = 0"
    using e mod_add_left_eq [of k 12 1] by simp
  have d: "(k + 1) div 12 = k div 12 + 1"
    using div_succ [of 12 k] m by simp
  show ?thesis
    using DaysBeforeMonth_last [of "k div 12"]
    by (simp add: monthStart_def d m e DayFromYear_step DaysBeforeMonth_def [of _ 0])
qed

lemma monthStart_mono: "k \<le> k' \<Longrightarrow> monthStart k \<le> monthStart k'"
proof (induction k' rule: int_ge_induct)
  case base
  show ?case by simp
next
  case (step i)
  then show ?case
    using monthStart_step [of i] monthLength_bounds(1) [of "i div 12" "i mod 12"] by linarith
qed

lemma date_monthStart:
  "d = monthStart (12 * getFullYear d + getMonth d) + getDate d - 1"
  using MakeDay_components [of d 0] MakeDay_monthStart [of "YearFromTime d" "MonthFromTime d"]
  by (simp add: getFullYear_def getMonth_def getDate_def)

lemma addMonths_monthStart:
  "addMonths d n = monthStart (12 * getFullYear d + getMonth d + n) + getDate (addMonths d n) - 1"
proof -
  have "12 * getFullYear (addMonths d n) + getMonth (addMonths d n)
      = 12 * getFullYear d + getMonth d + n"
    by (simp add: getFullYear_addMonths getMonth_addMonths algebra_simps)
  then show ?thesis using date_monthStart [of "addMonths d n"] by simp
qed

lemma getMonth_range: "0 \<le> getMonth d" "getMonth d < 12"
  using MonthFromTime_range [of d] by (simp_all add: getMonth_def)

lemma getDate_range: "1 \<le> getDate d" "getDate d \<le> monthLength (getFullYear d) (getMonth d)"
  using DateFromTime_lower [of d] DateFromTime_upper [of d]
  by (simp_all add: getDate_def getFullYear_def getMonth_def)

lemma addMonths_zero: "addMonths d 0 = d"
proof -
  have "getDate (addMonths d 0) = getDate d"
    using getMonth_range [of d] getDate_range(2) [of d] by (simp add: getDate_addMonths)
  then show ?thesis
    using addMonths_monthStart [of d 0] date_monthStart [of d] by simp
qed

lemma addMonths_later:
  assumes "1 \<le> n"
  shows "d < addMonths d n"
proof -
  let ?k = "12 * getFullYear d + getMonth d"
  have km: "getMonth d div 12 = 0" "getMonth d mod 12 = getMonth d"
    using getMonth_range [of d] by simp_all
  have "monthStart ?k + monthLength (getFullYear d) (getMonth d) = monthStart (?k + 1)"
    using monthStart_step [of ?k] by (simp add: km)
  also have "\<dots> \<le> monthStart (?k + n)"
    using assms by (intro monthStart_mono) simp
  finally have "monthStart ?k + getDate d \<le> monthStart (?k + n)"
    using getDate_range(2) [of d] by linarith
  moreover have "1 \<le> getDate (addMonths d n)" by (rule getDate_range)
  ultimately show ?thesis
    using addMonths_monthStart [of d n] date_monthStart [of d] by linarith
qed

lemma addMonths_ge: "0 \<le> n \<Longrightarrow> d \<le> addMonths d n"
  using addMonths_later [of n d] addMonths_zero [of d] by (cases "n = 0") simp_all

section \<open>The growth simulator\<close>

record SimulationInput =
  startingAmount :: real
  annualRate :: real
  compoundFrequency :: string
  depositAmount :: real
  depositFrequency :: string
  timeValue :: int
  timeUnit :: string

text \<open>
  The two output arrays, shared by the local state of the loop and by the returned object.
\<close>

record points =
  labels :: "(int \<times> int \<times> int) list"
  series :: "real list"

record locals = points +
  balance :: real

record SimulationResult = points +
  finalBalance :: real
  endDate :: date

definition recordPoint :: "date \<Rightarrow> locals \<Rightarrow> locals" where
  "recordPoint d s =
     s\<lparr>labels := labels s @ [toLocaleDateString d],
       series := series s @ [toFixed2 (balance s)]\<rparr>"

text \<open>One pass through the body of the \<^verbatim>\<open>for\<close> loop.\<close>

definition loopBody :: "SimulationInput \<Rightarrow> date \<Rightarrow> date \<Rightarrow> date \<Rightarrow> locals \<Rightarrow> locals" where
  "loopBody inp startDate compoundAnchor d s =
     (let s1 = (if depositAmount inp > 0 \<and> isEventDay d startDate (depositFrequency inp)
                then s\<lparr>balance := balance s + depositAmount inp\<rparr> else s);
          s2 = (if isEventDay d compoundAnchor (compoundFrequency inp)
                then s1\<lparr>balance := applyInterest (balance s1) (annualRate inp)\<rparr> else s1)
      in recordPoint d s2)"

function simulateLoop ::
  "SimulationInput \<Rightarrow> date \<Rightarrow> date \<Rightarrow> date \<Rightarrow> date \<Rightarrow> locals \<Rightarrow> locals" where
  "simulateLoop inp startDate endD compoundAnchor d s =
     (if d \<le> endD
      then simulateLoop inp startDate endD compoundAnchor (addDays d 1)
             (loopBody inp startDate compoundAnchor d s)
      else s)"
  by pat_completeness auto
termination
  by (relation "measure (\<lambda>(inp, startDate, endD, compoundAnchor, d, s). nat (endD + 1 - d))")
    (simp_all add: addDays_plus)

declare simulateLoop.simps [simp del]

text \<open>
  \<^verbatim>\<open>simulateGrowth\<close> reads the clock with \<^verbatim>\<open>new Date()\<close>; the reading is the parameter
  \<open>now\<close>. Its time of day is dropped at once by \<^verbatim>\<open>normalizeDate\<close>, so the day number is
  all that the function uses of it.
\<close>

definition simulateGrowth :: "date \<Rightarrow> SimulationInput \<Rightarrow> SimulationResult" where
  "simulateGrowth now inp =
     (let startDate = normalizeDate now;
          endD = getEndDate startDate (timeValue inp) (timeUnit inp);
          compoundAnchor = getCompoundAnchor startDate (compoundFrequency inp);
          s = simulateLoop inp startDate endD compoundAnchor startDate
                \<lparr>labels = [], series = [], balance = startingAmount inp\<rparr>
      in \<lparr>labels = labels s, series = series s, finalBalance = balance s, endDate = endD\<rparr>)"

section \<open>Monthly events, month by month\<close>

definition monthIndex :: "date \<Rightarrow> int" where
  "monthIndex d = 12 * getFullYear d + getMonth d"

text \<open>The day of month \<open>k\<close> that matches a monthly anchor on day-of-month \<open>a\<close>.\<close>

definition monthlyDay :: "int \<Rightarrow> int \<Rightarrow> date" where
  "monthlyDay a k = monthStart k + min a (monthLength (k div 12) (k mod 12)) - 1"

lemma monthIndex_divmod:
  "monthIndex d div 12 = getFullYear d" "monthIndex d mod 12 = getMonth d"
  using getMonth_range [of d] by (simp_all add: monthIndex_def)

lemma date_in_month:
  "d = monthStart (monthIndex d) + getDate d - 1"
  using date_monthStart [of d] by (simp add: monthIndex_def)

lemma monthIndex_bounds:
  "monthStart (monthIndex d) \<le> d" "d < monthStart (monthIndex d + 1)"
proof -
  show "monthStart (monthIndex d) \<le> d"
    using date_in_month [of d] getDate_range(1) [of d] by linarith
  show "d < monthStart (monthIndex d + 1)"
    using date_in_month [of d] getDate_range(2) [of d]
    by (simp add: monthStart_step monthIndex_divmod)
qed

lemma monthIndex_unique:
  assumes "monthStart k \<le> d" "d < monthStart (k + 1)"
  shows "monthIndex d = k"
proof (rule antisym)
  show "monthIndex d \<le> k"
  proof (rule ccontr)
    assume "\<not> monthIndex d \<le> k"
    then have "monthStart (k + 1) \<le> monthStart (monthIndex d)"
      by (intro monthStart_mono) simp
    then show False using assms(2) monthIndex_bounds(1) [of d] by linarith
  qed
  show "k \<le> monthIndex d"
  proof (rule ccontr)
    assume "\<not> k \<le> monthIndex d"
    then have "monthStart (monthIndex d + 1) \<le> monthStart k"
      by (intro monthStart_mono) simp
    then show False using assms(1) monthIndex_bounds(2) [of d] by linarith
  qed
qed

lemma monthlyDay_in_month:
  assumes "1 \<le> a"
  shows "monthStart k \<le> monthlyDay a k" "monthlyDay a k < monthStart (k + 1)"
  using assms monthLength_bounds [of "k div 12" "k mod 12"]
  by (simp_all add: monthlyDay_def monthStart_step)

lemma monthIndex_monthlyDay: "1 \<le> a \<Longrightarrow> monthIndex (monthlyDay a k) = k"
  by (rule monthIndex_unique) (simp_all add: monthlyDay_in_month)

lemma isMonthlyEvent_iff:
  "isMonthlyEvent d anchor \<longleftrightarrow> d = monthlyDay (getDate anchor) (monthIndex d)"
proof -
  have "isMonthlyEvent d anchor \<longleftrightarrow>
      getDate d = min (getDate anchor) (monthLength (getFullYear d) (getMonth d))"
    using getMonth_range [of d] by (simp add: isMonthlyEvent_def daysInMonth_table)
  also have "\<dots> \<longleftrightarrow> d = monthlyDay (getDate anchor) (monthIndex d)"
    using date_in_month [of d] by (auto simp add: monthlyDay_def monthIndex_divmod)
  finally show ?thesis .
qed

lemma monthlyDay_less:
  assumes "1 \<le> a" "k < k'"
  shows "monthlyDay a k < monthlyDay a k'"
proof -
  have "monthlyDay a k < monthStart (k + 1)" using assms(1) by (rule monthlyDay_in_month)
  also have "\<dots> \<le> monthStart k'" using assms(2) by (intro monthStart_mono) simp
  also have "\<dots> \<le> monthlyDay a k'" using assms(1) by (rule monthlyDay_in_month)
  finally show ?thesis .
qed

lemma monthly_events_image:
  assumes "1 \<le> getDate anchor"
  shows "{d \<in> {s..e}. isMonthlyEvent d anchor}
       = monthlyDay (getDate anchor) ` {k. s \<le> monthlyDay (getDate anchor) k
            \<and> monthlyDay (getDate anchor) k \<le> e}"
proof (intro set_eqI iffI)
  fix d
  assume "d \<in> {d \<in> {s..e}. isMonthlyEvent d anchor}"
  then have d: "s \<le> d" "d \<le> e" "d = monthlyDay (getDate anchor) (monthIndex d)"
    by (simp_all add: isMonthlyEvent_iff [symmetric])
  then show "d \<in> monthlyDay (getDate anchor) ` {k. s \<le> monthlyDay (getDate anchor) k
            \<and> monthlyDay (getDate anchor) k \<le> e}"
    by (intro image_eqI [where x = "monthIndex d"]) simp_all
next
  fix d
  assume "d \<in> monthlyDay (getDate anchor) ` {k. s \<le> monthlyDay (getDate anchor) k
            \<and> monthlyDay (getDate anchor) k \<le> e}"
  then obtain k where k: "d = monthlyDay (getDate anchor) k" "s \<le> d" "d \<le> e" by auto
  then have "isMonthlyEvent d anchor"
    unfolding isMonthlyEvent_iff by (simp add: monthIndex_monthlyDay assms)
  with k show "d \<in> {d \<in> {s..e}. isMonthlyEvent d anchor}" by simp
qed

definition monthLen :: "int \<Rightarrow> int" where
  "monthLen k = monthLength (k div 12) (k mod 12)"

lemma monthIndex_addMonths: "monthIndex (addMonths s n) = monthIndex s + n"
  by (simp add: monthIndex_def getFullYear_addMonths getMonth_addMonths algebra_simps)

lemma getDate_addMonths_monthLen:
  "getDate (addMonths s n) = min (getDate s) (monthLen (monthIndex s + n))"
proof -
  have "(12 * getFullYear s + (getMonth s + n)) div 12 = getFullYear s + (getMonth s + n) div 12"
    by simp
  moreover have "(12 * getFullYear s + (getMonth s + n)) mod 12 = (getMonth s + n) mod 12"
    by simp
  ultimately show ?thesis
    by (simp add: getDate_addMonths monthLen_def monthIndex_def add.assoc)
qed

lemma date_as_monthlyDay: "d = monthlyDay (getDate d) (monthIndex d)"
  using date_in_month [of d] getDate_range(2) [of d]
  by (simp add: monthlyDay_def monthIndex_divmod)

lemma monthlyDay_mono_day: "a \<le> b \<Longrightarrow> monthlyDay a k \<le> monthlyDay b k"
  by (auto simp add: monthlyDay_def min_def)

lemma monthlyDay_clamped: "monthlyDay (min a (monthLen k)) k = monthlyDay a k"
  by (simp add: monthlyDay_def monthLen_def)

lemma monthly_event_months:
  fixes s :: date and n :: int
  assumes "1 \<le> n"
  defines "a \<equiv> getDate (addMonths s 1)"
  defines "lo \<equiv> (if getDate s \<le> monthLen (monthIndex s + 1) then monthIndex s else monthIndex s + 1)"
  shows "{k. s \<le> monthlyDay a k \<and> monthlyDay a k \<le> addMonths s n} = {lo..monthIndex s + n}"
proof -
  let ?K = "monthIndex s"
  let ?e = "addMonths s n"
  have a1: "1 \<le> a"
    unfolding a_def by (rule getDate_range)
  have a_le: "a \<le> getDate s"
    unfolding a_def by (simp add: getDate_addMonths_monthLen)
  have s_eq: "s = monthlyDay (getDate s) ?K" by (rule date_as_monthlyDay)
  have e_eq: "?e = monthlyDay (getDate s) (?K + n)"
    using date_as_monthlyDay [of ?e]
    by (simp add: monthIndex_addMonths getDate_addMonths_monthLen monthlyDay_clamped)
  have e_ge: "monthlyDay a (?K + n) \<le> ?e"
    unfolding e_eq using a_le by (rule monthlyDay_mono_day)
  have s_bounds: "monthStart ?K \<le> s" "s < monthStart (?K + 1)"
    by (rule monthIndex_bounds)+
  have e_bounds: "monthStart (?K + n) \<le> ?e" "?e < monthStart (?K + n + 1)"
    using monthIndex_bounds [of ?e] by (simp_all add: monthIndex_addMonths)
  show ?thesis
  proof (intro set_eqI iffI)
    fix k
    assume "k \<in> {k. s \<le> monthlyDay a k \<and> monthlyDay a k \<le> ?e}"
    then have k: "s \<le> monthlyDay a k" "monthlyDay a k \<le> ?e" by simp_all
    have "?K \<le> k"
    proof (rule ccontr)
      assume "\<not> ?K \<le> k"
      then have "monthStart (k + 1) \<le> monthStart ?K" by (intro monthStart_mono) simp
      then show False
        using monthlyDay_in_month(2) [OF a1, of k] s_bounds(1) k(1) by linarith
    qed
    moreover have "k \<noteq> ?K" if "\<not> getDate s \<le> monthLen (?K + 1)"
    proof
      assume "k = ?K"
      have "a < getDate s"
        using that unfolding a_def by (simp add: getDate_addMonths_monthLen)
      then have "monthlyDay a ?K < monthlyDay (getDate s) ?K"
        using getDate_range(2) [of s]
        by (simp add: monthlyDay_def monthIndex_divmod)
      then show False using k(1) s_eq \<open>k = ?K\<close> by simp
    qed
    moreover have "k \<le> ?K + n"
    proof (rule ccontr)
      assume "\<not> k \<le> ?K + n"
      then have "monthStart (?K + n + 1) \<le> monthStart k" by (intro monthStart_mono) simp
      then show False
        using monthlyDay_in_month(1) [OF a1, of k] e_bounds(2) k(2) by linarith
    qed
    ultimately show "k \<in> {lo..?K + n}"
      by (auto simp add: lo_def)
  next
    fix k
    assume "k \<in> {lo..?K + n}"
    then have k: "lo \<le> k" "k \<le> ?K + n" by simp_all
    have lower: "s \<le> monthlyDay a k"
    proof (cases "k = ?K")
      case True
      then have "getDate s \<le> monthLen (?K + 1)"
        using k(1) by (simp add: lo_def split: if_splits)
      then have "a = getDate s"
        unfolding a_def by (simp add: getDate_addMonths_monthLen)
      then show ?thesis using s_eq True by simp
    next
      case False
      then have "?K + 1 \<le> k" using k(1) by (simp add: lo_def split: if_splits)
      then have "monthStart (?K + 1) \<le> monthStart k" by (rule monthStart_mono)
      then show ?thesis
        using monthlyDay_in_month(1) [OF a1, of k] s_bounds(2) by linarith
    qed
    have upper: "monthlyDay a k \<le> ?e"
    proof (cases "k = ?K + n")
      case True
      then show ?thesis using e_ge by simp
    next
      case False
      then have "k + 1 \<le> ?K + n" using k(2) by simp
      then have "monthStart (k + 1) \<le> monthStart (?K + n)" by (rule monthStart_mono)
      then show ?thesis
        using monthlyDay_in_month(2) [OF a1, of k] e_bounds(1) by linarith
    qed
    from lower upper show "k \<in> {k. s \<le> monthlyDay a k \<and> monthlyDay a k \<le> ?e}" by simp
  qed
qed

lemma monthly_event_count:
  assumes "1 \<le> n"
  shows "length (filter (\<lambda>d. isMonthlyEvent d (addMonths s 1)) [s..addMonths s n])
       = nat n + (if getDate s \<le> monthLen (monthIndex s + 1) then 1 else 0)"
proof -
  let ?a = "getDate (addMonths s 1)"
  let ?lo = "if getDate s \<le> monthLen (monthIndex s + 1) then monthIndex s else monthIndex s + 1"
  have a1: "1 \<le> ?a" by (rule getDate_range)
  have inj: "inj_on (monthlyDay ?a) A" for A
    using monthlyDay_less [OF a1] by (intro inj_onI) (metis less_irrefl linorder_neqE_linordered_idom)
  have "length (filter (\<lambda>d. isMonthlyEvent d (addMonths s 1)) [s..addMonths s n])
      = card ({d. isMonthlyEvent d (addMonths s 1)} \<inter> set [s..addMonths s n])"
    by (rule distinct_length_filter) simp
  also have "{d. isMonthlyEvent d (addMonths s 1)} \<inter> set [s..addMonths s n]
      = {d \<in> {s..addMonths s n}. isMonthlyEvent d (addMonths s 1)}"
    by auto
  also have "\<dots> = monthlyDay ?a ` {?lo..monthIndex s + n}"
    unfolding monthly_events_image [OF a1] monthly_event_months [OF assms] ..
  also have "card \<dots> = card {?lo..monthIndex s + n}"
    by (rule card_image) (rule inj)
  also have "\<dots> = nat n + (if getDate s \<le> monthLen (monthIndex s + 1) then 1 else 0)"
    using assms by (auto simp add: nat_add_distrib)
  finally show ?thesis .
qed

section \<open>Facts about the loop\<close>

text \<open>
  The effect of one loop pass on the balance alone, and the balances after each day of a
  list of days. Neither mentions the rounding of the recorded points.
\<close>

definition depositStep :: "SimulationInput \<Rightarrow> date \<Rightarrow> date \<Rightarrow> real \<Rightarrow> real" where
  "depositStep inp startDate d b =
     (if depositAmount inp > 0 \<and> isEventDay d startDate (depositFrequency inp)
      then b + depositAmount inp else b)"

definition dayBalance :: "SimulationInput \<Rightarrow> date \<Rightarrow> date \<Rightarrow> date \<Rightarrow> real \<Rightarrow> real" where
  "dayBalance inp startDate compoundAnchor d b =
     (let b1 = depositStep inp startDate d b
      in if isEventDay d compoundAnchor (compoundFrequency inp)
         then applyInterest b1 (annualRate inp) else b1)"

fun balanceTrace :: "(date \<Rightarrow> real \<Rightarrow> real) \<Rightarrow> real \<Rightarrow> date list \<Rightarrow> real list" where
  "balanceTrace f b [] = []"
| "balanceTrace f b (d # ds) = f d b # balanceTrace f (f d b) ds"

lemma loopBody_fields:
  "balance (loopBody inp sd ca d s) = dayBalance inp sd ca d (balance s)"
  "labels (loopBody inp sd ca d s) = labels s @ [toLocaleDateString d]"
  "series (loopBody inp sd ca d s) = series s @ [toFixed2 (dayBalance inp sd ca d (balance s))]"
  by (simp_all add: loopBody_def dayBalance_def depositStep_def recordPoint_def Let_def)

lemma simulateLoop_foldl:
  "simulateLoop inp sd ed ca d s = foldl (\<lambda>s d. loopBody inp sd ca d s) s [d..ed]"
proof (induction inp sd ed ca d s rule: simulateLoop.induct)
  case (1 inp sd ed ca d s)
  show ?case
  proof (cases "d \<le> ed")
    case True
    then have "[d..ed] = d # [d + 1..ed]" by (rule upto_rec1)
    with True "1.IH" show ?thesis
      by (simp add: simulateLoop.simps [of inp sd ed ca d s] addDays_plus)
  next
    case False
    then show ?thesis by (simp add: simulateLoop.simps [of inp sd ed ca d s])
  qed
qed

lemma foldl_loopBody_balance:
  "balance (foldl (\<lambda>s d. loopBody inp sd ca d s) s ds)
     = foldl (\<lambda>b d. dayBalance inp sd ca d b) (balance s) ds"
  by (induction ds arbitrary: s) (simp_all add: loopBody_fields)

lemma foldl_loopBody_labels:
  "labels (foldl (\<lambda>s d. loopBody inp sd ca d s) s ds) = labels s @ map toLocaleDateString ds"
  by (induction ds arbitrary: s) (simp_all add: loopBody_fields)

lemma foldl_loopBody_series:
  "series (foldl (\<lambda>s d. loopBody inp sd ca d s) s ds)
     = series s @ map toFixed2 (balanceTrace (dayBalance inp sd ca) (balance s) ds)"
  by (induction ds arbitrary: s) (simp_all add: loopBody_fields)

lemma last_balanceTrace:
  "last (b # balanceTrace f b ds) = foldl (\<lambda>b d. f d b) b ds"
  by (induction ds arbitrary: b) simp_all

lemma length_balanceTrace: "length (balanceTrace f b ds) = length ds"
  by (induction ds arbitrary: b) simp_all

lemma interest_only_balance:
  assumes "depositAmount inp \<le> 0" "0 < annualRate inp"
  shows "foldl (\<lambda>b d. dayBalance inp sd ca d b) b ds
       = b * (1 + annualRate inp / 100)
           ^ length (filter (\<lambda>d. isEventDay d ca (compoundFrequency inp)) ds)"
  using assms
  by (induction ds arbitrary: b) (simp_all add: dayBalance_def depositStep_def applyInterest_def)

lemma getEndDate_ge:
  assumes "0 \<le> tv"
  shows "sd \<le> getEndDate sd tv tu"
  using assms addMonths_ge [of tv sd] addMonths_ge [of "tv * 12" sd]
  by (simp add: getEndDate_def addDays_plus addYears_def)

section \<open>The program on the full platform\<close>

text \<open>
  The definitions above take every \<^verbatim>\<open>Date\<close> to be valid and every amount to be a real
  number. The definitions of this section transcribe the same source functions once
  more, on a model of the platform that keeps what the first one leaves out:
  \<^item> a \<^verbatim>\<open>Date\<close> is invalid (its time value is \<^verbatim>\<open>NaN\<close>) when it lies more than
    100,000,000 days from the epoch, and the accessors of an invalid \<^verbatim>\<open>Date\<close> return
    \<^verbatim>\<open>NaN\<close>;
  \<^item> the \<^verbatim>\<open>Date\<close> constructor and \<^verbatim>\<open>Date.UTC\<close> read a year from 0 to 99 as 1900 plus
    that year;
  \<^item> a time zone may skip a local calendar day (Samoa had no 30 December 2011); a
    \<^verbatim>\<open>Date\<close> built for a skipped day is the day after;
  \<^item> amounts are IEEE double-precision numbers: every arithmetic result is rounded to
    the nearest double, a tie going to the even significand, and a result too large for
    a double is an infinity.
  The time zone is taken to be UTC apart from the days it skips, and no distinction is
  made between the two zeros of the doubles.
\<close>

subsection \<open>Numbers and dates that may be NaN\<close>

type_synonym jsint = "int option"

type_synonym jsdate = "int option"

type_synonym zone = "int set"

definition num2 :: "(int \<Rightarrow> int \<Rightarrow> int) \<Rightarrow> jsint \<Rightarrow> jsint \<Rightarrow> jsint" where
  "num2 f a b =
     (case a of None \<Rightarrow> None
      | Some x \<Rightarrow> (case b of None \<Rightarrow> None | Some y \<Rightarrow> Some (f x y)))"

text \<open>The comparisons \<^verbatim>\<open>===\<close> and \<^verbatim>\<open><=\<close>: false as soon as one side is \<^verbatim>\<open>NaN\<close>.\<close>

definition strictEq :: "jsint \<Rightarrow> jsint \<Rightarrow> bool" where
  "strictEq a b =
     (case a of None \<Rightarrow> False
      | Some x \<Rightarrow> (case b of None \<Rightarrow> False | Some y \<Rightarrow> x = y))"

definition lessEq :: "jsint \<Rightarrow> jsint \<Rightarrow> bool" where
  "lessEq a b =
     (case a of None \<Rightarrow> False
      | Some x \<Rightarrow> (case b of None \<Rightarrow> False | Some y \<Rightarrow> x \<le> y))"

definition TimeClip :: "int \<Rightarrow> jsdate" where
  "TimeClip t = (if \<bar>t\<bar> \<le> 100000000 then Some t else None)"

definition MakeFullYear :: "int \<Rightarrow> int" where
  "MakeFullYear y = (if 0 \<le> y \<and> y \<le> 99 then 1900 + y else y)"

definition localDay :: "zone \<Rightarrow> int \<Rightarrow> int" where
  "localDay z t = (if t \<in> z then t + 1 else t)"

definition newDate_js :: "zone \<Rightarrow> jsint \<Rightarrow> jsint \<Rightarrow> jsint \<Rightarrow> jsdate" where
  "newDate_js z year month day =
     (case year of None \<Rightarrow> None
      | Some y \<Rightarrow>
          (case month of None \<Rightarrow> None
           | Some m \<Rightarrow>
               (case day of None \<Rightarrow> None
                | Some d \<Rightarrow> TimeClip (localDay z (MakeDay (MakeFullYear y) m d)))))"

definition getFullYear_js :: "jsdate \<Rightarrow> jsint" where
  "getFullYear_js d = map_option YearFromTime d"

definition getMonth_js :: "jsdate \<Rightarrow> jsint" where
  "getMonth_js d = map_option MonthFromTime d"

definition getDate_js :: "jsdate \<Rightarrow> jsint" where
  "getDate_js d = map_option DateFromTime d"

definition getDay_js :: "jsdate \<Rightarrow> jsint" where
  "getDay_js d = map_option WeekDay d"

definition setDate_js :: "zone \<Rightarrow> jsdate \<Rightarrow> jsint \<Rightarrow> jsdate" where
  "setDate_js z d dt =
     (case d of None \<Rightarrow> None
      | Some t \<Rightarrow>
          (case dt of None \<Rightarrow> None
           | Some n \<Rightarrow> TimeClip (localDay z (MakeDay (YearFromTime t) (MonthFromTime t) n))))"

definition Date_UTC_js :: "jsint \<Rightarrow> jsint \<Rightarrow> jsint \<Rightarrow> jsint" where
  "Date_UTC_js year month day =
     (case year of None \<Rightarrow> None
      | Some y \<Rightarrow>
          (case month of None \<Rightarrow> None
           | Some m \<Rightarrow>
               (case day of None \<Rightarrow> None
                | Some d \<Rightarrow>
                    (let ms = MakeDay (MakeFullYear y) m d * msPerDay
                     in if \<bar>ms\<bar> \<le> 8640000000000000 then Some ms else None))))"

definition toLocaleDateString_js :: "jsdate \<Rightarrow> (int \<times> int \<times> int) option" where
  "toLocaleDateString_js d = map_option toLocaleDateString d"

subsection \<open>Double-precision numbers\<close>

datatype jsnum = Fin real | PInf | NInf | NaN

text \<open>The exponent of a positive real: \<open>2 powi floorLog2 x \<le> x < 2 powi (floorLog2 x + 1)\<close>.\<close>

function floorLog2 :: "real \<Rightarrow> int" where
  "floorLog2 x =
     (if x \<le> 0 then 0
      else if 2 \<le> x then floorLog2 (x / 2) + 1
      else if x < 1 then floorLog2 (2 * x) - 1
      else 0)"
  by pat_completeness auto
termination
proof (relation "measure (\<lambda>x. if 1 \<le> x then nat \<lfloor>log 2 x\<rfloor> else nat \<lceil>- log 2 x\<rceil>)")
  show "wf (measure (\<lambda>x. if 1 \<le> x then nat \<lfloor>log 2 x\<rfloor> else nat \<lceil>- log 2 x\<rceil>))"
    by simp
next
  fix x :: real
  assume a: "\<not> x \<le> 0" "2 \<le> x"
  have "log 2 (x / 2) = log 2 x - 1" using a by (simp add: log_divide)
  moreover have "1 \<le> log 2 x" using a by (simp add: le_log_iff)
  ultimately show "(x / 2, x)
      \<in> measure (\<lambda>x. if 1 \<le> x then nat \<lfloor>log 2 x\<rfloor> else nat \<lceil>- log 2 x\<rceil>)"
    using a by simp
next
  fix x :: real
  assume a: "\<not> x \<le> 0" "\<not> 2 \<le> x" "x < 1"
  have l: "log 2 (2 * x) = 1 + log 2 x" using a by (simp add: log_mult)
  have n: "log 2 x < 0" using a by simp
  show "(2 * x, x)
      \<in> measure (\<lambda>x. if 1 \<le> x then nat \<lfloor>log 2 x\<rfloor> else nat \<lceil>- log 2 x\<rceil>)"
  proof (cases "1 \<le> 2 * x")
    case True
    then have "log 2 (2 * x) < 1" using a by (simp add: log_less_iff)
    moreover have "0 \<le> log 2 (2 * x)" using True by simp
    ultimately have "\<lfloor>log 2 (2 * x)\<rfloor> = 0" by linarith
    moreover have "0 < \<lceil>- log 2 x\<rceil>" using n by linarith
    ultimately show ?thesis using a True by simp
  next
    case False
    have "\<lceil>- log 2 (2 * x)\<rceil> = \<lceil>- log 2 x\<rceil> - 1" unfolding l by linarith
    moreover have "0 < \<lceil>- log 2 x\<rceil>" using n by linarith
    ultimately show ?thesis using a False by simp
  qed
qed

declare floorLog2.simps [simp del]

definition roundHalfEven :: "real \<Rightarrow> int" where
  "roundHalfEven m =
     (let f = \<lfloor>m\<rfloor>; r = m - of_int f in
      if r < 1 / 2 then f
      else if 1 / 2 < r then f + 1
      else if even f then f else f + 1)"

text \<open>
  Rounding a real to the nearest double: 53 significant bits, exponents from \<open>-1022\<close>
  (below which the spacing stays \<open>2 powi - 1074\<close>) to 1023 (above which the result is
  an infinity).
\<close>

definition roundD :: "real \<Rightarrow> jsnum" where
  "roundD x =
     (if x = 0 then Fin 0
      else
        let e = max (floorLog2 \<bar>x\<bar>) (- 1022);
            u = 2 powi (e - 52);
            n = roundHalfEven (\<bar>x\<bar> / u)
        in if 1023 < e \<or> (e = 1023 \<and> n = 2 ^ 53) then (if 0 < x then PInf else NInf)
           else Fin (sgn x * (of_int n * u)))"

fun js_add :: "jsnum \<Rightarrow> jsnum \<Rightarrow> jsnum" where
  "js_add NaN _ = NaN"
| "js_add _ NaN = NaN"
| "js_add PInf NInf = NaN"
| "js_add NInf PInf = NaN"
| "js_add PInf _ = PInf"
| "js_add _ PInf = PInf"
| "js_add NInf _ = NInf"
| "js_add _ NInf = NInf"
| "js_add (Fin a) (Fin b) = roundD (a + b)"

fun js_mul :: "jsnum \<Rightarrow> jsnum \<Rightarrow> jsnum" where
  "js_mul NaN _ = NaN"
| "js_mul _ NaN = NaN"
| "js_mul (Fin a) (Fin b) = roundD (a * b)"
| "js_mul (Fin a) PInf = (if a = 0 then NaN else if 0 < a then PInf else NInf)"
| "js_mul (Fin a) NInf = (if a = 0 then NaN else if 0 < a then NInf else PInf)"
| "js_mul PInf (Fin b) = (if b = 0 then NaN else if 0 < b then PInf else NInf)"
| "js_mul NInf (Fin b) = (if b = 0 then NaN else if 0 < b then NInf else PInf)"
| "js_mul PInf PInf = PInf"
| "js_mul NInf NInf = PInf"
| "js_mul PInf NInf = NInf"
| "js_mul NInf PInf = NInf"

text \<open>Division by a finite number other than zero, which is all the program needs.\<close>

fun js_div :: "jsnum \<Rightarrow> real \<Rightarrow> jsnum" where
  "js_div NaN _ = NaN"
| "js_div (Fin a) b = roundD (a / b)"
| "js_div PInf b = (if 0 < b then PInf else NInf)"
| "js_div NInf b = (if 0 < b then NInf else PInf)"

text \<open>\<^verbatim>\<open>x > 0\<close> and \<^verbatim>\<open>x <= 0\<close>; both are false for \<^verbatim>\<open>NaN\<close>.\<close>

fun js_positive :: "jsnum \<Rightarrow> bool" where
  "js_positive (Fin a) = (0 < a)"
| "js_positive PInf = True"
| "js_positive NInf = False"
| "js_positive NaN = False"

fun js_nonpositive :: "jsnum \<Rightarrow> bool" where
  "js_nonpositive (Fin a) = (a \<le> 0)"
| "js_nonpositive PInf = False"
| "js_nonpositive NInf = True"
| "js_nonpositive NaN = False"

text \<open>
  \<^verbatim>\<open>Number(x.toFixed(2))\<close>: \<^verbatim>\<open>toFixed\<close> writes the exact value of the double with two
  decimals, a tie going away from zero, and \<^verbatim>\<open>Number\<close> reads the digits back as the
  nearest double. From \<open>10 ^ 21\<close> on, and for the infinities and \<^verbatim>\<open>NaN\<close>, \<^verbatim>\<open>toFixed\<close>
  writes the number as \<^verbatim>\<open>String\<close> does and \<^verbatim>\<open>Number\<close> reads the same number back.
\<close>

fun Number_toFixed2 :: "jsnum \<Rightarrow> jsnum" where
  "Number_toFixed2 (Fin x) = (if \<bar>x\<bar> < 10 ^ 21 then roundD (toFixed2 x) else Fin x)"
| "Number_toFixed2 PInf = PInf"
| "Number_toFixed2 NInf = NInf"
| "Number_toFixed2 NaN = NaN"

subsection \<open>The functions of the program\<close>

definition normalizeDate_js :: "zone \<Rightarrow> jsdate \<Rightarrow> jsdate" where
  "normalizeDate_js z d = newDate_js z (getFullYear_js d) (getMonth_js d) (getDate_js d)"

definition addDays_js :: "zone \<Rightarrow> jsdate \<Rightarrow> int \<Rightarrow> jsdate" where
  "addDays_js z d days =
     (let next = setDate_js z d (num2 (+) (getDate_js d) (Some days))
      in normalizeDate_js z next)"

definition daysBetween_js :: "jsdate \<Rightarrow> jsdate \<Rightarrow> jsint" where
  "daysBetween_js start end =
     (let utcStart = Date_UTC_js (getFullYear_js start) (getMonth_js start) (getDate_js start);
          utcEnd = Date_UTC_js (getFullYear_js end) (getMonth_js end) (getDate_js end)
      in map_option (\<lambda>ms. Math_round (real_of_int ms / real_of_int MS_PER_DAY))
           (num2 (-) utcEnd utcStart))"

definition daysInMonth_js :: "zone \<Rightarrow> jsint \<Rightarrow> jsint \<Rightarrow> jsint" where
  "daysInMonth_js z year month =
     getDate_js (newDate_js z year (num2 (+) month (Some 1)) (Some 0))"

definition addMonths_js :: "zone \<Rightarrow> jsdate \<Rightarrow> int \<Rightarrow> jsdate" where
  "addMonths_js z d months =
     (let year = getFullYear_js d;
          month = getMonth_js d;
          targetMonth = num2 (+) month (Some months);
          targetYear =
            num2 (+) year (map_option (\<lambda>t. Math_floor (real_of_int t / 12)) targetMonth);
          normalizedMonth = map_option (\<lambda>t. js_rem (js_rem t 12 + 12) 12) targetMonth;
          day = num2 min (getDate_js d) (daysInMonth_js z targetYear normalizedMonth)
      in newDate_js z targetYear normalizedMonth day)"

definition addYears_js :: "zone \<Rightarrow> jsdate \<Rightarrow> int \<Rightarrow> jsdate" where
  "addYears_js z d years = addMonths_js z d (years * 12)"

definition isWeekday_js :: "jsdate \<Rightarrow> bool" where
  "isWeekday_js d =
     (let day = getDay_js d in lessEq (Some 1) day \<and> lessEq day (Some 5))"

definition isMonthlyEvent_js :: "zone \<Rightarrow> jsdate \<Rightarrow> jsdate \<Rightarrow> bool" where
  "isMonthlyEvent_js z d startDate =
     (let targetDay = num2 min (getDate_js startDate)
                        (daysInMonth_js z (getFullYear_js d) (getMonth_js d))
      in strictEq (getDate_js d) targetDay)"

definition isWeeklyEvent_js :: "jsdate \<Rightarrow> jsdate \<Rightarrow> bool" where
  "isWeeklyEvent_js d startDate =
     strictEq (map_option (\<lambda>n. js_rem n 7) (daysBetween_js startDate d)) (Some 0)"

definition isEventDay_js :: "zone \<Rightarrow> jsdate \<Rightarrow> jsdate \<Rightarrow> string \<Rightarrow> bool" where
  "isEventDay_js z d startDate frequency =
     (if frequency = ''weekday'' then isWeekday_js d
      else if frequency = ''weekly'' then isWeeklyEvent_js d startDate
      else isMonthlyEvent_js z d startDate)"

definition getEndDate_js :: "zone \<Rightarrow> jsdate \<Rightarrow> int \<Rightarrow> string \<Rightarrow> jsdate" where
  "getEndDate_js z startDate n unit =
     (if unit = ''weeks'' then addDays_js z startDate (n * 7)
      else if unit = ''months'' then addMonths_js z startDate n
      else addYears_js z startDate n)"

definition getCompoundAnchor_js :: "zone \<Rightarrow> jsdate \<Rightarrow> string \<Rightarrow> jsdate" where
  "getCompoundAnchor_js z startDate frequency =
     (if frequency = ''weekly'' then addDays_js z startDate 7
      else if frequency = ''monthly'' then addMonths_js z startDate 1
      else startDate)"

definition applyInterest_js :: "jsnum \<Rightarrow> jsnum \<Rightarrow> jsnum" where
  "applyInterest_js b ratePerPeriod =
     (if js_nonpositive ratePerPeriod then b
      else js_mul b (js_add (Fin 1) (js_div ratePerPeriod 100)))"

text \<open>Building a date never moves it back, so a step of one day moves forward.\<close>

lemma localDay_ge: "t \<le> localDay z t"
  by (simp add: localDay_def)

lemma MakeFullYear_ge: "y \<le> MakeFullYear y"
  by (simp add: MakeFullYear_def)

lemma MakeDay_year_mono: "y \<le> y' \<Longrightarrow> MakeDay y m d \<le> MakeDay y' m d"
  using monthStart_mono [of "12 * y + m" "12 * y' + m"] by (simp add: MakeDay_monthStart)

lemma TimeClip_Some: "TimeClip t = Some r \<Longrightarrow> r = t \<and> \<bar>t\<bar> \<le> 100000000"
  by (simp add: TimeClip_def split: if_splits)

lemma normalizeDate_js_ge:
  assumes "normalizeDate_js z (Some t) = Some r"
  shows "t \<le> r"
proof -
  let ?m = "MakeDay (MakeFullYear (YearFromTime t)) (MonthFromTime t) (DateFromTime t)"
  from assms have "TimeClip (localDay z ?m) = Some r"
    by (simp add: normalizeDate_js_def newDate_js_def getFullYear_js_def getMonth_js_def
        getDate_js_def)
  then have "r = localDay z ?m" by (simp add: TimeClip_Some)
  moreover have "t \<le> ?m"
    using MakeDay_year_mono [OF MakeFullYear_ge, of "YearFromTime t" "MonthFromTime t"
        "DateFromTime t"] MakeDay_components [of t 0]
    by simp
  ultimately show ?thesis using localDay_ge [of ?m z] by linarith
qed

lemma setDate_js_shift:
  "setDate_js z (Some t) (num2 (+) (getDate_js (Some t)) (Some k)) = TimeClip (localDay z (t + k))"
  by (simp add: setDate_js_def num2_def getDate_js_def MakeDay_components)

lemma addDays_js_unfold:
  "addDays_js z (Some t) k =
     (case TimeClip (localDay z (t + k)) of None \<Rightarrow> None
      | Some t1 \<Rightarrow> normalizeDate_js z (Some t1))"
  by (cases "TimeClip (localDay z (t + k))")
    (simp_all add: addDays_js_def setDate_js_shift normalizeDate_js_def newDate_js_def
      getFullYear_js_def Let_def)

lemma addDays_js_ge:
  assumes "addDays_js z (Some t) k = Some r"
  shows "t + k \<le> r"
proof (cases "TimeClip (localDay z (t + k))")
  case None
  with assms show ?thesis by (simp add: addDays_js_unfold)
next
  case (Some t1)
  then have "t1 = localDay z (t + k)" by (simp add: TimeClip_Some)
  then have "t + k \<le> t1" using localDay_ge [of "t + k" z] by simp
  moreover have "normalizeDate_js z (Some t1) = Some r"
    using assms Some by (simp add: addDays_js_unfold)
  then have "t1 \<le> r" by (rule normalizeDate_js_ge)
  ultimately show ?thesis by linarith
qed

subsection \<open>The growth simulator\<close>

record points_js =
  labels_js :: "(int \<times> int \<times> int) option list"
  series_js :: "jsnum list"

record locals_js = points_js +
  balance_js :: jsnum

record SimulationResult_js = points_js +
  finalBalance_js :: jsnum
  endDate_js :: jsdate

text \<open>
  The amounts of a \<open>SimulationInput\<close> are given as reals; the program receives each as a
  JavaScript number, the nearest double.
\<close>

definition numberOf :: "real \<Rightarrow> jsnum" where
  "numberOf x = roundD x"

definition recordPoint_js :: "jsdate \<Rightarrow> locals_js \<Rightarrow> locals_js" where
  "recordPoint_js d s =
     s\<lparr>labels_js := labels_js s @ [toLocaleDateString_js d],
       series_js := series_js s @ [Number_toFixed2 (balance_js s)]\<rparr>"

definition loopBody_js ::
  "zone \<Rightarrow> SimulationInput \<Rightarrow> jsdate \<Rightarrow> jsdate \<Rightarrow> jsdate \<Rightarrow> locals_js \<Rightarrow> locals_js" where
  "loopBody_js z inp startDate compoundAnchor d s =
     (let s1 = (if js_positive (numberOf (depositAmount inp))
                     \<and> isEventDay_js z d startDate (depositFrequency inp)
                then s\<lparr>balance_js := js_add (balance_js s) (numberOf (depositAmount inp))\<rparr>
                else s);
          s2 = (if isEventDay_js z d compoundAnchor (compoundFrequency inp)
                then s1\<lparr>balance_js :=
                        applyInterest_js (balance_js s1) (numberOf (annualRate inp))\<rparr>
                else s1)
      in recordPoint_js d s2)"

function simulateLoop_js ::
  "zone \<Rightarrow> SimulationInput \<Rightarrow> jsdate \<Rightarrow> jsdate \<Rightarrow> jsdate \<Rightarrow> jsdate \<Rightarrow> locals_js
     \<Rightarrow> locals_js" where
  "simulateLoop_js z inp startDate endD compoundAnchor d s =
     (if lessEq d endD
      then simulateLoop_js z inp startDate endD compoundAnchor (addDays_js z d 1)
             (loopBody_js z inp startDate compoundAnchor d s)
      else s)"
  by pat_completeness auto
termination
proof (relation "measure (\<lambda>(z, inp, startDate, endD, compoundAnchor, d, s).
    case d of None \<Rightarrow> 0
    | Some t \<Rightarrow> (case endD of None \<Rightarrow> 0 | Some e \<Rightarrow> nat (e + 1 - t)))")
  show "wf (measure (\<lambda>(z, inp, startDate, endD, compoundAnchor, d, s).
    case d of None \<Rightarrow> 0
    | Some t \<Rightarrow> (case endD of None \<Rightarrow> 0 | Some e \<Rightarrow> nat (e + 1 - t))))"
    by simp
next
  fix z :: zone and inp :: SimulationInput and startDate endD compoundAnchor d :: jsdate
    and s :: locals_js
  assume "lessEq d endD"
  then obtain t e where te: "d = Some t" "endD = Some e" "t \<le> e"
    by (auto simp add: lessEq_def split: option.splits)
  show "((z, inp, startDate, endD, compoundAnchor, addDays_js z d 1,
          loopBody_js z inp startDate compoundAnchor d s),
         (z, inp, startDate, endD, compoundAnchor, d, s))
      \<in> measure (\<lambda>(z, inp, startDate, endD, compoundAnchor, d, s).
          case d of None \<Rightarrow> 0
          | Some t \<Rightarrow> (case endD of None \<Rightarrow> 0 | Some e \<Rightarrow> nat (e + 1 - t)))"
  proof (cases "addDays_js z (Some t) 1")
    case None
    then show ?thesis using te by simp
  next
    case (Some r)
    then have "t + 1 \<le> r" by (rule addDays_js_ge)
    then show ?thesis using te Some by simp
  qed
qed

declare simulateLoop_js.simps [simp del]

definition simulateGrowth_js :: "zone \<Rightarrow> int \<Rightarrow> SimulationInput \<Rightarrow> SimulationResult_js" where
  "simulateGrowth_js z now inp =
     (let startDate = normalizeDate_js z (Some now);
          endD = getEndDate_js z startDate (timeValue inp) (timeUnit inp);
          compoundAnchor = getCompoundAnchor_js z startDate (compoundFrequency inp);
          s = simulateLoop_js z inp startDate endD compoundAnchor startDate
                \<lparr>labels_js = [], series_js = [],
                 balance_js = numberOf (startingAmount inp)\<rparr>
      in \<lparr>labels_js = labels_js s, series_js = series_js s,
          finalBalance_js = balance_js s, endDate_js = endD\<rparr>)"

subsection \<open>Facts about the loop on the full platform\<close>

text \<open>
  The days that the loop visits, the effect of one pass on the balance alone, and the
  balances after each of a list of days.
\<close>

function loopDays_js :: "zone \<Rightarrow> jsdate \<Rightarrow> jsdate \<Rightarrow> jsdate list" where
  "loopDays_js z endD d =
     (if lessEq d endD then d # loopDays_js z endD (addDays_js z d 1) else [])"
  by pat_completeness auto
termination
proof (relation "measure (\<lambda>(z, endD, d).
    case d of None \<Rightarrow> 0
    | Some t \<Rightarrow> (case endD of None \<Rightarrow> 0 | Some e \<Rightarrow> nat (e + 1 - t)))")
  show "wf (measure (\<lambda>(z, endD, d).
    case d of None \<Rightarrow> 0
    | Some t \<Rightarrow> (case endD of None \<Rightarrow> 0 | Some e \<Rightarrow> nat (e + 1 - t))))"
    by simp
next
  fix z :: zone and endD d :: jsdate
  assume "lessEq d endD"
  then obtain t e where te: "d = Some t" "endD = Some e" "t \<le> e"
    by (auto simp add: lessEq_def split: option.splits)
  show "((z, endD, addDays_js z d 1), (z, endD, d))
      \<in> measure (\<lambda>(z, endD, d).
          case d of None \<Rightarrow> 0
          | Some t \<Rightarrow> (case endD of None \<Rightarrow> 0 | Some e \<Rightarrow> nat (e + 1 - t)))"
  proof (cases "addDays_js z (Some t) 1")
    case None
    then show ?thesis using te by simp
  next
    case (Some r)
    then have "t + 1 \<le> r" by (rule addDays_js_ge)
    then show ?thesis using te Some by simp
  qed
qed

declare loopDays_js.simps [simp del]

definition depositStep_js :: "zone \<Rightarrow> SimulationInput \<Rightarrow> jsdate \<Rightarrow> jsdate \<Rightarrow> jsnum \<Rightarrow> jsnum" where
  "depositStep_js z inp startDate d b =
     (if js_positive (numberOf (depositAmount inp))
           \<and> isEventDay_js z d startDate (depositFrequency inp)
      then js_add b (numberOf (depositAmount inp)) else b)"

definition dayBalance_js ::
  "zone \<Rightarrow> SimulationInput \<Rightarrow> jsdate \<Rightarrow> jsdate \<Rightarrow> jsdate \<Rightarrow> jsnum \<Rightarrow> jsnum" where
  "dayBalance_js z inp startDate compoundAnchor d b =
     (let b1 = depositStep_js z inp startDate d b
      in if isEventDay_js z d compoundAnchor (compoundFrequency inp)
         then applyInterest_js b1 (numberOf (annualRate inp)) else b1)"

fun balanceTrace_js :: "(jsdate \<Rightarrow> jsnum \<Rightarrow> jsnum) \<Rightarrow> jsnum \<Rightarrow> jsdate list \<Rightarrow> jsnum list" where
  "balanceTrace_js f b [] = []"
| "balanceTrace_js f b (d # ds) = f d b # balanceTrace_js f (f d b) ds"

lemma loopBody_js_fields:
  "balance_js (loopBody_js z inp sd ca d s) = dayBalance_js z inp sd ca d (balance_js s)"
  "labels_js (loopBody_js z inp sd ca d s) = labels_js s @ [toLocaleDateString_js d]"
  "series_js (loopBody_js z inp sd ca d s)
     = series_js s @ [Number_toFixed2 (dayBalance_js z inp sd ca d (balance_js s))]"
  by (simp_all add: loopBody_js_def dayBalance_js_def depositStep_js_def recordPoint_js_def
      Let_def)

lemma simulateLoop_js_foldl:
  "simulateLoop_js z inp sd ed ca d s
     = foldl (\<lambda>s d. loopBody_js z inp sd ca d s) s (loopDays_js z ed d)"
proof (induction z inp sd ed ca d s rule: simulateLoop_js.induct)
  case (1 z inp sd ed ca d s)
  show ?case
  proof (cases "lessEq d ed")
    case True
    with "1.IH" show ?thesis
      by (simp add: simulateLoop_js.simps [of z inp sd ed ca d s] loopDays_js.simps [of z ed d])
  next
    case False
    then show ?thesis
      by (simp add: simulateLoop_js.simps [of z inp sd ed ca d s] loopDays_js.simps [of z ed d])
  qed
qed

lemma foldl_loopBody_js_balance:
  "balance_js (foldl (\<lambda>s d. loopBody_js z inp sd ca d s) s ds)
     = foldl (\<lambda>b d. dayBalance_js z inp sd ca d b) (balance_js s) ds"
  by (induction ds arbitrary: s) (simp_all add: loopBody_js_fields)

lemma foldl_loopBody_js_labels:
  "labels_js (foldl (\<lambda>s d. loopBody_js z inp sd ca d s) s ds)
     = labels_js s @ map toLocaleDateString_js ds"
  by (induction ds arbitrary: s) (simp_all add: loopBody_js_fields)

lemma foldl_loopBody_js_series:
  "series_js (foldl (\<lambda>s d. loopBody_js z inp sd ca d s) s ds)
     = series_js s
       @ map Number_toFixed2 (balanceTrace_js (dayBalance_js z inp sd ca) (balance_js s) ds)"
  by (induction ds arbitrary: s) (simp_all add: loopBody_js_fields)

lemma last_balanceTrace_js:
  "last (b # balanceTrace_js f b ds) = foldl (\<lambda>b d. f d b) b ds"
  by (induction ds arbitrary: b) simp_all

lemma length_balanceTrace_js: "length (balanceTrace_js f b ds) = length ds"
  by (induction ds arbitrary: b) simp_all

lemma simulateGrowth_js_fields:
  "labels_js (simulateGrowth_js z now inp)
     = map toLocaleDateString_js
         (loopDays_js z
            (getEndDate_js z (normalizeDate_js z (Some now)) (timeValue inp) (timeUnit inp))
            (normalizeDate_js z (Some now)))"
  "series_js (simulateGrowth_js z now inp)
     = map Number_toFixed2
         (balanceTrace_js
            (dayBalance_js z inp (normalizeDate_js z (Some now))
               (getCompoundAnchor_js z (normalizeDate_js z (Some now)) (compoundFrequency inp)))
            (numberOf (startingAmount inp))
            (loopDays_js z
               (getEndDate_js z (normalizeDate_js z (Some now)) (timeValue inp) (timeUnit inp))
               (normalizeDate_js z (Some now))))"
  "finalBalance_js (simulateGrowth_js z now inp)
     = last (numberOf (startingAmount inp) #
         balanceTrace_js
            (dayBalance_js z inp (normalizeDate_js z (Some now))
               (getCompoundAnchor_js z (normalizeDate_js z (Some now)) (compoundFrequency inp)))
            (numberOf (startingAmount inp))
            (loopDays_js z
               (getEndDate_js z (normalizeDate_js z (Some now)) (timeValue inp) (timeUnit inp))
               (normalizeDate_js z (Some now))))"
  "endDate_js (simulateGrowth_js z now inp)
     = getEndDate_js z (normalizeDate_js z (Some now)) (timeValue inp) (timeUnit inp)"
  unfolding last_balanceTrace_js
  by (simp_all add: simulateGrowth_js_def Let_def simulateLoop_js_foldl
      foldl_loopBody_js_labels foldl_loopBody_js_series foldl_loopBody_js_balance)

subsection \<open>Facts about valid dates\<close>

lemma YearFromTime_mono:
  assumes "t \<le> t'"
  shows "YearFromTime t \<le> YearFromTime t'"
proof (rule ccontr)
  assume "\<not> YearFromTime t \<le> YearFromTime t'"
  then have "DayFromYear (YearFromTime t' + 1) \<le> DayFromYear (YearFromTime t)"
    by (intro DayFromYear_mono) simp
  then show False
    using YearFromTime_spec [of t] YearFromTime_spec [of t'] assms by linarith
qed

lemma MakeFullYear_id: "100 \<le> y \<Longrightarrow> MakeFullYear y = y"
  by (simp add: MakeFullYear_def)

lemma newDate_js_components:
  assumes "100 \<le> YearFromTime t" "t \<notin> z" "\<bar>t\<bar> \<le> 100000000"
  shows "newDate_js z (Some (YearFromTime t)) (Some (MonthFromTime t)) (Some (DateFromTime t))
       = Some t"
  using assms MakeDay_components [of t 0]
  by (simp add: newDate_js_def MakeFullYear_id localDay_def TimeClip_def)

lemma normalizeDate_js_valid:
  assumes "100 \<le> YearFromTime t" "t \<notin> z" "\<bar>t\<bar> \<le> 100000000"
  shows "normalizeDate_js z (Some t) = Some t"
  using newDate_js_components [OF assms]
  by (simp add: normalizeDate_js_def getFullYear_js_def getMonth_js_def getDate_js_def)

lemma normalizeDate_js_range:
  assumes "normalizeDate_js z d = Some s"
  shows "\<bar>s\<bar> \<le> 100000000"
proof (cases d)
  case None
  with assms show ?thesis
    by (simp add: normalizeDate_js_def newDate_js_def getFullYear_js_def)
next
  case (Some t)
  with assms have "TimeClip (localDay z
      (MakeDay (MakeFullYear (YearFromTime t)) (MonthFromTime t) (DateFromTime t))) = Some s"
    by (simp add: normalizeDate_js_def newDate_js_def getFullYear_js_def getMonth_js_def
        getDate_js_def)
  then show ?thesis using TimeClip_Some by blast
qed

lemma addDays_js_range:
  assumes "addDays_js z (Some t) k = Some r"
  shows "\<bar>r\<bar> \<le> 100000000"
proof (cases "TimeClip (localDay z (t + k))")
  case None
  with assms show ?thesis by (simp add: addDays_js_unfold)
next
  case (Some t1)
  with assms have "normalizeDate_js z (Some t1) = Some r" by (simp add: addDays_js_unfold)
  then show ?thesis by (rule normalizeDate_js_range)
qed

lemma addDays_js_valid:
  assumes "100 \<le> YearFromTime (t + k)" "t + k \<notin> z" "\<bar>t + k\<bar> \<le> 100000000"
  shows "addDays_js z (Some t) k = Some (t + k)"
  using assms normalizeDate_js_valid [OF assms]
  by (simp add: addDays_js_unfold localDay_def TimeClip_def)

lemma daysInMonth_js_positive:
  assumes "daysInMonth_js z y m = Some k"
  shows "1 \<le> k"
proof -
  from assms obtain t where "k = DateFromTime t"
    by (auto simp add: daysInMonth_js_def getDate_js_def)
  then show ?thesis using DateFromTime_lower [of t] by simp
qed

lemma addMonths_js_later:
  assumes "1 \<le> n" and "addMonths_js z (Some s) n = Some e"
  shows "s < e" and "\<bar>e\<bar> \<le> 100000000"
proof -
  let ?ty = "YearFromTime s + (MonthFromTime s + n) div 12"
  let ?nm = "(MonthFromTime s + n) mod 12"
  let ?k = "12 * YearFromTime s + MonthFromTime s"
  from assms(2) have nd: "newDate_js z (Some ?ty) (Some ?nm)
       (num2 min (Some (DateFromTime s)) (daysInMonth_js z (Some ?ty) (Some ?nm))) = Some e"
    by (simp add: addMonths_js_def Let_def getFullYear_js_def getMonth_js_def getDate_js_def
        num2_def js_rem_normalize Math_floor_div)
  then obtain dim where dim: "daysInMonth_js z (Some ?ty) (Some ?nm) = Some dim"
    by (cases "daysInMonth_js z (Some ?ty) (Some ?nm)") (simp_all add: num2_def newDate_js_def)
  let ?day = "min (DateFromTime s) dim"
  have day: "1 \<le> ?day"
    using DateFromTime_lower [of s] daysInMonth_js_positive [OF dim] by simp
  from nd dim have clip: "TimeClip (localDay z (MakeDay (MakeFullYear ?ty) ?nm ?day)) = Some e"
    by (simp add: num2_def newDate_js_def)
  then have e: "e = localDay z (MakeDay (MakeFullYear ?ty) ?nm ?day)"
    and "\<bar>localDay z (MakeDay (MakeFullYear ?ty) ?nm ?day)\<bar> \<le> 100000000"
    using TimeClip_Some by blast+
  then show "\<bar>e\<bar> \<le> 100000000" by simp
  have "12 * ?ty + ?nm = ?k + n"
    by (simp add: algebra_simps)
  then have "MakeDay ?ty ?nm ?day = monthStart (?k + n) + ?day - 1"
    unfolding MakeDay_monthStart by (simp only:)
  moreover have "MakeDay ?ty ?nm ?day \<le> MakeDay (MakeFullYear ?ty) ?nm ?day"
    by (rule MakeDay_year_mono [OF MakeFullYear_ge])
  moreover have "monthStart (monthIndex s + 1) \<le> monthStart (?k + n)"
    using assms(1) by (intro monthStart_mono) (simp add: monthIndex_def getFullYear_def getMonth_def)
  ultimately show "s < e"
    using monthIndex_bounds(2) [of s] localDay_ge [of "MakeDay (MakeFullYear ?ty) ?nm ?day" z]
      day e
    by linarith
qed

lemma getEndDate_js_later:
  assumes "0 < n" and "getEndDate_js z (Some s) n unit = Some e"
  shows "s < e" and "\<bar>e\<bar> \<le> 100000000"
proof -
  consider (w) "unit = ''weeks''" "addDays_js z (Some s) (n * 7) = Some e"
    | (m) "addMonths_js z (Some s) n = Some e"
    | (y) "addMonths_js z (Some s) (n * 12) = Some e"
    using assms(2) by (auto simp add: getEndDate_js_def addYears_js_def split: if_splits)
  then have "s < e \<and> \<bar>e\<bar> \<le> 100000000"
  proof cases
    case w
    then show ?thesis
      using assms(1) addDays_js_ge [of z s "n * 7" e] addDays_js_range [of z s "n * 7" e]
      by simp
  next
    case m
    then show ?thesis
      using assms(1) addMonths_js_later [of n z s e] by simp
  next
    case y
    then show ?thesis
      using assms(1) addMonths_js_later [of "n * 12" z s e] by simp
  qed
  then show "s < e" and "\<bar>e\<bar> \<le> 100000000" by simp_all
qed

lemma loopDays_js_after: "e < t \<Longrightarrow> loopDays_js z (Some e) (Some t) = []"
  by (simp add: loopDays_js.simps [of z "Some e" "Some t"] lessEq_def)

lemma loopDays_js_None: "loopDays_js z (Some e) None = []"
  by (simp add: loopDays_js.simps [of z "Some e" None] lessEq_def)

lemma loopDays_js_valid:
  assumes year: "100 \<le> YearFromTime s"
    and skip: "z \<inter> {s..e} = {}"
    and lo: "- 100000000 \<le> s" and hi: "e \<le> 100000000"
    and d: "d \<le> e + 1"
  shows "s \<le> d \<longrightarrow> loopDays_js z (Some e) (Some d) = map Some [d..e]"
  using d
proof (induction d rule: int_le_induct)
  case base
  show ?case by (simp add: loopDays_js_after)
next
  case (step i)
  show ?case
  proof
    assume si: "s \<le> i - 1"
    have ie: "i - 1 \<le> e" using step.hyps by simp
    have rest: "loopDays_js z (Some e) (addDays_js z (Some (i - 1)) 1) = map Some [i..e]"
    proof (cases "i \<le> e")
      case True
      have "100 \<le> YearFromTime (i - 1 + 1)"
        using year si YearFromTime_mono [of s i] by simp
      moreover have "i - 1 + 1 \<notin> z" using skip si True by auto
      moreover have "\<bar>i - 1 + 1\<bar> \<le> 100000000" using lo hi si True by simp
      ultimately have "addDays_js z (Some (i - 1)) 1 = Some (i - 1 + 1)"
        by (rule addDays_js_valid)
      then show ?thesis using step.IH si by simp
    next
      case False
      then have empty: "[i..e] = []" by simp
      show ?thesis
      proof (cases "addDays_js z (Some (i - 1)) 1")
        case None
        then show ?thesis by (simp add: loopDays_js_None empty)
      next
        case (Some r)
        then have "i - 1 + 1 \<le> r" by (rule addDays_js_ge)
        then have "e < r" using False by simp
        then show ?thesis by (simp add: Some loopDays_js_after empty)
      qed
    qed
    have "[i - 1..e] = (i - 1) # [i..e]"
      using ie upto_rec1 [of "i - 1" e] by simp
    then show "loopDays_js z (Some e) (Some (i - 1)) = map Some [i - 1..e]"
      using ie rest by (simp add: loopDays_js.simps [of z "Some e" "Some (i - 1)"] lessEq_def)
  qed
qed

lemma Date_UTC_js_valid:
  assumes "100 \<le> YearFromTime t" "\<bar>t\<bar> \<le> 100000000"
  shows "Date_UTC_js (getFullYear_js (Some t)) (getMonth_js (Some t)) (getDate_js (Some t))
       = Some (t * msPerDay)"
proof -
  have "\<bar>t * msPerDay\<bar> \<le> 8640000000000000"
    using assms(2) by (simp add: msPerDay_def abs_mult)
  then show ?thesis
    using assms(1) MakeDay_components [of t 0]
    by (simp add: Date_UTC_js_def getFullYear_js_def getMonth_js_def getDate_js_def
        MakeFullYear_id)
qed

lemma daysBetween_js_valid:
  assumes "100 \<le> YearFromTime s" "\<bar>s\<bar> \<le> 100000000"
    and "100 \<le> YearFromTime e" "\<bar>e\<bar> \<le> 100000000"
  shows "daysBetween_js (Some s) (Some e) = Some (e - s)"
proof -
  have "e * msPerDay - s * msPerDay = (e - s) * MS_PER_DAY"
    by (simp add: msPerDay_def MS_PER_DAY_def algebra_simps)
  then have "real_of_int (e * msPerDay - s * msPerDay) / real_of_int MS_PER_DAY
      = real_of_int (e - s)"
    by (simp add: MS_PER_DAY_def)
  then show ?thesis
    unfolding daysBetween_js_def Date_UTC_js_valid [OF assms(1,2)]
      Date_UTC_js_valid [OF assms(3,4)]
    by (simp add: num2_def Math_round_def Let_def)
qed

subsection \<open>Facts about the rounding\<close>

lemma floorLog2_bounds:
  "0 < x \<Longrightarrow> 2 powi floorLog2 x \<le> x \<and> x < 2 powi (floorLog2 x + 1)"
proof (induction x rule: floorLog2.induct)
  case (1 x)
  consider (big) "2 \<le> x" | (small) "x < 1" | (unit) "1 \<le> x" "x < 2"
    by linarith
  then show ?case
  proof cases
    case big
    then have f: "floorLog2 x = floorLog2 (x / 2) + 1"
      using "1.prems" by (simp add: floorLog2.simps [of x])
    have "2 powi floorLog2 (x / 2) \<le> x / 2 \<and> x / 2 < 2 powi (floorLog2 (x / 2) + 1)"
      using "1.IH"(1) "1.prems" big by simp
    then show ?thesis
      unfolding f by (simp add: power_int_add field_simps)
  next
    case small
    then have f: "floorLog2 x = floorLog2 (2 * x) - 1"
      using "1.prems" by (simp add: floorLog2.simps [of x])
    have "2 powi floorLog2 (2 * x) \<le> 2 * x \<and> 2 * x < 2 powi (floorLog2 (2 * x) + 1)"
      using "1.IH"(2) "1.prems" small by simp
    then show ?thesis
      unfolding f by (simp add: power_int_add power_int_diff field_simps)
  next
    case unit
    then have "floorLog2 x = 0"
      using "1.prems" by (simp add: floorLog2.simps [of x])
    then show ?thesis using unit by simp
  qed
qed

lemma roundHalfEven_error: "\<bar>real_of_int (roundHalfEven m) - m\<bar> \<le> 1 / 2"
proof -
  define r where "r = m - real_of_int \<lfloor>m\<rfloor>"
  have r: "0 \<le> r" "r < 1" unfolding r_def by linarith+
  have lo: "\<bar>real_of_int \<lfloor>m\<rfloor> - m\<bar> \<le> 1 / 2" if "r \<le> 1 / 2"
    using that r unfolding r_def by linarith
  have hi: "\<bar>real_of_int (\<lfloor>m\<rfloor> + 1) - m\<bar> \<le> 1 / 2" if "1 / 2 \<le> r"
    using that r unfolding r_def by simp
  consider "r < 1 / 2" | "1 / 2 < r" | "r = 1 / 2" by linarith
  then show ?thesis
  proof cases
    case 1
    then have "roundHalfEven m = \<lfloor>m\<rfloor>"
      by (simp add: roundHalfEven_def Let_def r_def)
    then show ?thesis using lo 1 by simp
  next
    case 2
    then have "roundHalfEven m = \<lfloor>m\<rfloor> + 1"
      by (simp add: roundHalfEven_def Let_def r_def)
    then show ?thesis using hi 2 by simp
  next
    case 3
    then have "roundHalfEven m = \<lfloor>m\<rfloor> \<or> roundHalfEven m = \<lfloor>m\<rfloor> + 1"
      by (simp add: roundHalfEven_def Let_def r_def)
    then show ?thesis using lo hi 3 by auto
  qed
qed

lemma roundD_normal:
  assumes lo: "1 / 100 \<le> \<bar>v\<bar>" and hi: "\<bar>v\<bar> < 2 ^ 70"
  shows "\<exists>y. roundD v = Fin y \<and> \<bar>y - v\<bar> \<le> \<bar>v\<bar> * 2 powi (- 53)"
proof -
  define e where "e = floorLog2 \<bar>v\<bar>"
  define u :: real where "u = 2 powi (e - 52)"
  define n where "n = roundHalfEven (\<bar>v\<bar> / u)"
  have pos: "0 < \<bar>v\<bar>" using lo by linarith
  have b: "2 powi e \<le> \<bar>v\<bar>" "\<bar>v\<bar> < 2 powi (e + 1)"
    using floorLog2_bounds [OF pos] by (simp_all add: e_def)
  have e_lo: "- 7 \<le> e"
  proof (rule ccontr)
    assume "\<not> - 7 \<le> e"
    then have "(2::real) powi (e + 1) \<le> 2 powi (- 7)"
      by (intro power_int_increasing) simp_all
    then show False using b(2) lo by simp
  qed
  have e_hi: "e < 70"
  proof (rule ccontr)
    assume "\<not> e < 70"
    then have "(2::real) powi 70 \<le> 2 powi e"
      by (intro power_int_increasing) simp_all
    then show False using b(1) hi by simp
  qed
  have upos: "0 < u" by (simp add: u_def)
  have m: "max e (- 1022) = e" using e_lo by simp
  have r: "roundD v = Fin (sgn v * (real_of_int n * u))"
    using pos e_hi
    by (simp add: roundD_def Let_def m e_def [symmetric] u_def [symmetric] n_def [symmetric])
  have "\<bar>real_of_int n - \<bar>v\<bar> / u\<bar> \<le> 1 / 2"
    unfolding n_def by (rule roundHalfEven_error)
  then have "\<bar>real_of_int n - \<bar>v\<bar> / u\<bar> * u \<le> 1 / 2 * u"
    using upos by (intro mult_right_mono) simp_all
  moreover have "\<bar>real_of_int n - \<bar>v\<bar> / u\<bar> * u = \<bar>real_of_int n * u - \<bar>v\<bar>\<bar>"
  proof -
    have "(real_of_int n - \<bar>v\<bar> / u) * u = real_of_int n * u - \<bar>v\<bar>"
      using upos by (simp add: left_diff_distrib)
    then have "\<bar>real_of_int n * u - \<bar>v\<bar>\<bar> = \<bar>real_of_int n - \<bar>v\<bar> / u\<bar> * \<bar>u\<bar>"
      by (metis abs_mult)
    then show ?thesis using upos by simp
  qed
  ultimately have err: "\<bar>real_of_int n * u - \<bar>v\<bar>\<bar> \<le> u / 2" by simp
  have "u / 2 = 2 powi e * 2 powi (- 53)"
    by (simp add: u_def power_int_diff field_simps power_int_minus)
  also have "\<dots> \<le> \<bar>v\<bar> * 2 powi (- 53)"
    using b(1) by (intro mult_right_mono) simp_all
  finally have bound: "\<bar>real_of_int n * u - \<bar>v\<bar>\<bar> \<le> \<bar>v\<bar> * 2 powi (- 53)"
    using err by linarith
  have "\<bar>sgn v * (real_of_int n * u) - v\<bar> = \<bar>real_of_int n * u - \<bar>v\<bar>\<bar>"
  proof (cases "0 < v")
    case True
    then show ?thesis by simp
  next
    case False
    then have neg: "v < 0" using pos by simp
    then have "sgn v * (real_of_int n * u) - v = - (real_of_int n * u - \<bar>v\<bar>)"
      by simp
    then show ?thesis by (metis abs_minus)
  qed
  with r bound show ?thesis by simp
qed

lemma toFixed2_hundredths:
  "toFixed2 x = real_of_int (if x < 0 then - \<lfloor>\<bar>x\<bar> * 100 + 1 / 2\<rfloor> else \<lfloor>\<bar>x\<bar> * 100 + 1 / 2\<rfloor>) / 100"
  by (simp add: toFixed2_def sgn_if)

lemma toFixed2_error: "\<bar>toFixed2 x - x\<bar> \<le> 1 / 200"
proof -
  define n where "n = \<lfloor>\<bar>x\<bar> * 100 + 1 / 2\<rfloor>"
  have n: "real_of_int n \<le> \<bar>x\<bar> * 100 + 1 / 2" "\<bar>x\<bar> * 100 + 1 / 2 < real_of_int n + 1"
    unfolding n_def by linarith+
  then have "\<bar>real_of_int n / 100 - \<bar>x\<bar>\<bar> \<le> 1 / 200" by linarith
  moreover have "\<bar>toFixed2 x - x\<bar> = \<bar>real_of_int n / 100 - \<bar>x\<bar>\<bar>"
  proof (cases "0 \<le> x")
    case True
    then show ?thesis
      by (cases "x = 0") (simp_all add: toFixed2_def n_def)
  next
    case False
    then have "toFixed2 x - x = - (real_of_int n / 100 - \<bar>x\<bar>)"
      by (simp add: toFixed2_def n_def)
    then show ?thesis by (metis abs_minus)
  qed
  ultimately show ?thesis by simp
qed

lemma toFixed2_zero_or_cent: "toFixed2 x = 0 \<or> 1 / 100 \<le> \<bar>toFixed2 x\<bar>"
proof -
  define n where "n = \<lfloor>\<bar>x\<bar> * 100 + 1 / 2\<rfloor>"
  have "0 \<le> n" unfolding n_def by simp
  then have "n = 0 \<or> 1 \<le> n" by linarith
  moreover have "\<bar>toFixed2 x\<bar> = \<bar>sgn x\<bar> * (real_of_int n / 100)"
    using \<open>0 \<le> n\<close> by (simp add: toFixed2_def n_def abs_mult)
  ultimately show ?thesis
    by (cases "x = 0") (auto simp add: toFixed2_def n_def)
qed

lemma Number_toFixed2_near:
  assumes "\<bar>x\<bar> < 10 ^ 21"
  shows "\<exists>y. Number_toFixed2 (Fin x) = Fin y
           \<and> \<bar>y - toFixed2 x\<bar> \<le> \<bar>toFixed2 x\<bar> * 2 powi (- 53)"
proof (cases "toFixed2 x = 0")
  case True
  then show ?thesis using assms by (simp add: roundD_def)
next
  case False
  then have lo: "1 / 100 \<le> \<bar>toFixed2 x\<bar>" using toFixed2_zero_or_cent [of x] by simp
  have "\<bar>toFixed2 x\<bar> \<le> \<bar>x\<bar> + 1 / 200"
    using toFixed2_error [of x] by linarith
  then have hi: "\<bar>toFixed2 x\<bar> < 2 ^ 70" using assms by simp
  from roundD_normal [OF lo hi] show ?thesis using assms by simp
qed

subsection \<open>Agreement of the two transcriptions on valid dates\<close>

lemma addDays_js_agrees:
  assumes "100 \<le> getFullYear (addDays t k)" "addDays t k \<notin> z" "\<bar>addDays t k\<bar> \<le> 100000000"
  shows "addDays_js z (Some t) k = Some (addDays t k)"
  using assms by (simp add: addDays_plus getFullYear_def addDays_js_valid)

lemma daysBetween_js_agrees:
  assumes "100 \<le> getFullYear s" "\<bar>s\<bar> \<le> 100000000"
    and "100 \<le> getFullYear e" "\<bar>e\<bar> \<le> 100000000"
  shows "daysBetween_js (Some s) (Some e) = Some (daysBetween s e)"
  using assms by (simp add: daysBetween_diff getFullYear_def daysBetween_js_valid)

section \<open>Facts about the simulation and its predicates\<close>

lemma simulateGrowth_fields:
  "labels (simulateGrowth now inp)
     = map toLocaleDateString [now..getEndDate now (timeValue inp) (timeUnit inp)]"
  "series (simulateGrowth now inp)
     = map toFixed2
         (balanceTrace
            (dayBalance inp now (getCompoundAnchor now (compoundFrequency inp)))
            (startingAmount inp) [now..getEndDate now (timeValue inp) (timeUnit inp)])"
  "finalBalance (simulateGrowth now inp)
     = foldl (\<lambda>b d. dayBalance inp now (getCompoundAnchor now (compoundFrequency inp)) d b)
         (startingAmount inp) [now..getEndDate now (timeValue inp) (timeUnit inp)]"
  "endDate (simulateGrowth now inp) = getEndDate now (timeValue inp) (timeUnit inp)"
  by (simp_all add: simulateGrowth_def Let_def normalizeDate_id simulateLoop_foldl
      foldl_loopBody_labels foldl_loopBody_series foldl_loopBody_balance)

lemma isWeeklyEvent_iff: "isWeeklyEvent d a \<longleftrightarrow> (d - a) mod 7 = 0"
  by (simp add: isWeeklyEvent_def daysBetween_diff js_rem_zero_iff)

lemma following_month:
  "daysInMonth (getFullYear (addMonths d 1)) (getMonth (addMonths d 1))
     = monthLen (monthIndex d + 1)"
proof -
  have "daysInMonth (getFullYear (addMonths d 1)) (getMonth (addMonths d 1))
      = monthLength (getFullYear (addMonths d 1)) (getMonth (addMonths d 1))"
    using getMonth_range [of "addMonths d 1"] by (simp add: daysInMonth_table)
  also have "\<dots> = monthLen (monthIndex (addMonths d 1))"
    by (simp add: monthLen_def monthIndex_divmod)
  finally show ?thesis by (simp add: monthIndex_addMonths)
qed

lemma monthly_anchor_day:
  "getDate (getCompoundAnchor sd ''monthly'')
     = min (getDate sd) (daysInMonth (getFullYear (addMonths sd 1)) (getMonth (addMonths sd 1)))"
  by (simp add: getCompoundAnchor_def getDate_addMonths_monthLen following_month)

lemma isMonthlyEvent_at_start:
  "getDate anchor \<le> getDate sd \<Longrightarrow> isMonthlyEvent sd anchor \<longleftrightarrow> getDate sd = getDate anchor"
  using getDate_range(2) [of sd] getMonth_range [of sd]
  by (auto simp add: isMonthlyEvent_def daysInMonth_table)

lemma leap_year_iff:
  "DaysInYear y = 366 \<longleftrightarrow> y mod 4 = 0 \<and> (y mod 100 \<noteq> 0 \<or> y mod 400 = 0)"
  using mod_400_100 [of y] mod_100_4 [of y] by (auto simp add: DaysInYear_def)

lemma daysInMonth_of_date:
  "daysInMonth (getFullYear d) (getMonth d) =
     (if getMonth d = 1
      then (if getFullYear d mod 4 = 0 \<and> (getFullYear d mod 100 \<noteq> 0 \<or> getFullYear d mod 400 = 0)
            then 29 else 28)
      else if getMonth d = 3 \<or> getMonth d = 5 \<or> getMonth d = 8 \<or> getMonth d = 10 then 30
      else 31)"
  using getMonth_range [of d]
  by (simp add: daysInMonth_table monthLength_def leap_year_iff)

section \<open>The claims of the specification\<close>

text \<open>
  Concrete inputs used below. Day 19737 is Monday 15 January 2024, day 19753 is
  31 January 2024, day 19782 is 29 February 2024, day 19388 is 31 January 2023,
  day 19444 is 28 March 2023 and day 15333 is 25 December 2011.
\<close>

definition scenarioWeek :: SimulationInput where
  "scenarioWeek =
     \<lparr>startingAmount = 1000, annualRate = 0, compoundFrequency = ''monthly'',
      depositAmount = 0, depositFrequency = ''monthly'', timeValue = 1, timeUnit = ''weeks''\<rparr>"

definition scenarioLongHorizon :: SimulationInput where
  "scenarioLongHorizon =
     \<lparr>startingAmount = 1000, annualRate = 0, compoundFrequency = ''monthly'',
      depositAmount = 0, depositFrequency = ''monthly'', timeValue = 300000,
      timeUnit = ''years''\<rparr>"

definition scenarioCents :: SimulationInput where
  "scenarioCents =
     \<lparr>startingAmount = 23 / 10, annualRate = 15, compoundFrequency = ''monthly'',
      depositAmount = 0, depositFrequency = ''monthly'', timeValue = 1, timeUnit = ''weeks''\<rparr>"

definition scenarioDailyWeek :: SimulationInput where
  "scenarioDailyWeek =
     \<lparr>startingAmount = 1000, annualRate = 10, compoundFrequency = ''daily'',
      depositAmount = 0, depositFrequency = ''monthly'', timeValue = 1, timeUnit = ''weeks''\<rparr>"

definition scenarioMonthlyYear :: SimulationInput where
  "scenarioMonthlyYear =
     \<lparr>startingAmount = 1000, annualRate = 10, compoundFrequency = ''monthly'',
      depositAmount = 0, depositFrequency = ''monthly'', timeValue = 1, timeUnit = ''years''\<rparr>"

subsection \<open>C1: one year of monthly compounding\<close>

text \<open>
  For 1000 at 10 percent, compounded monthly for one year from any start date, the
  balance is multiplied by 1.1 thirteen times when the day-of-month of the start date
  exists in the following month, and twelve times otherwise: the start date itself is
  then a compounding day, besides one day in each of the twelve months that follow.
\<close>

lemma monthly_year_balance:
  "finalBalance (simulateGrowth now scenarioMonthlyYear)
     = 1000 * (11 / 10)
         ^ (if getDate now
                \<le> daysInMonth (getFullYear (addMonths now 1)) (getMonth (addMonths now 1))
            then 13 else 12)"
proof -
  have e: "getEndDate now (timeValue scenarioMonthlyYear) (timeUnit scenarioMonthlyYear)
      = addMonths now 12"
    by (simp add: scenarioMonthlyYear_def getEndDate_def addYears_def)
  have c: "getCompoundAnchor now (compoundFrequency scenarioMonthlyYear) = addMonths now 1"
    by (simp add: scenarioMonthlyYear_def getCompoundAnchor_def)
  have p: "(\<lambda>d. isEventDay d (addMonths now 1) (compoundFrequency scenarioMonthlyYear))
      = (\<lambda>d. isMonthlyEvent d (addMonths now 1))"
    by (simp add: scenarioMonthlyYear_def isEventDay_def)
  have "finalBalance (simulateGrowth now scenarioMonthlyYear)
      = startingAmount scenarioMonthlyYear * (1 + annualRate scenarioMonthlyYear / 100)
          ^ length (filter (\<lambda>d. isMonthlyEvent d (addMonths now 1)) [now..addMonths now 12])"
    unfolding simulateGrowth_fields e c p [symmetric]
    by (rule interest_only_balance) (simp_all add: scenarioMonthlyYear_def)
  also have "length (filter (\<lambda>d. isMonthlyEvent d (addMonths now 1)) [now..addMonths now 12])
      = (if getDate now
                \<le> daysInMonth (getFullYear (addMonths now 1)) (getMonth (addMonths now 1))
            then 13 else 12)"
    using monthly_event_count [of 12 now] by (simp add: following_month)
  finally show ?thesis by (simp add: scenarioMonthlyYear_def)
qed

text \<open>
  Claim C1 expects about 12 compounding events and a final balance near
  \<open>1000 * 1.1 ^ 12\<close> (3138.43) for 1000 at 10 percent, compounded monthly for one year.
  Started on 15 January 2024 the simulation compounds 13 times, on the 15th of
  thirteen months from January 2024 to January 2025, and returns \<open>1000 * 1.1 ^ 13\<close>
  (3452.27), more than 313 above the expected value.
\<close>

theorem monthly_year_thirteen_times:
  "finalBalance (simulateGrowth 19737 scenarioMonthlyYear) = 1000 * (11 / 10) ^ 13
   \<and> 1000 * (11 / 10) ^ 12 + 313 < finalBalance (simulateGrowth 19737 scenarioMonthlyYear)"
proof -
  have "getDate 19737
      \<le> daysInMonth (getFullYear (addMonths 19737 1)) (getMonth (addMonths 19737 1))"
    by code_simp
  then have "finalBalance (simulateGrowth 19737 scenarioMonthlyYear) = 1000 * (11 / 10) ^ 13"
    by (simp add: monthly_year_balance)
  moreover have "(1000::real) * (11 / 10) ^ 12 + 313 < 1000 * (11 / 10) ^ 13"
    by (simp add: power_divide)
  ultimately show ?thesis by simp
qed

subsection \<open>C2: one point per simulated day\<close>

text \<open>
  Claim C2 says that for every input whose \<open>timeValue\<close> is a positive integer the
  simulation returns \<open>daysBetween startDate endDate + 1\<close> labels and as many series
  entries. It fails for a horizon that leaves the range of \<^verbatim>\<open>Date\<close>: for 300000 years
  from 15 January 2024, \<^verbatim>\<open>addMonths\<close> returns an invalid date, the loop guard is false
  at once, no point is recorded and \<^verbatim>\<open>daysBetween\<close> is \<^verbatim>\<open>NaN\<close>.
\<close>

theorem point_count_counterexample:
  "0 < timeValue scenarioLongHorizon
   \<and> timeUnit scenarioLongHorizon = ''years''
   \<and> normalizeDate_js {} (Some 19737) = Some 19737
   \<and> endDate_js (simulateGrowth_js {} 19737 scenarioLongHorizon) = None
   \<and> labels_js (simulateGrowth_js {} 19737 scenarioLongHorizon) = []
   \<and> series_js (simulateGrowth_js {} 19737 scenarioLongHorizon) = []
   \<and> daysBetween_js (Some 19737) (endDate_js (simulateGrowth_js {} 19737 scenarioLongHorizon))
       = None"
  by code_simp

text \<open>
  It also fails where the time zone skips a calendar day inside the horizon: for one week
  from 25 December 2011 (day 15333) in a zone without 30 December 2011 (day 15338), the
  loop records seven points, while \<^verbatim>\<open>daysBetween\<close> is 7.
\<close>

lemma point_count_skipped_day:
  "length (labels_js (simulateGrowth_js {15338} 15333 scenarioWeek)) = 7
   \<and> length (series_js (simulateGrowth_js {15338} 15333 scenarioWeek)) = 7
   \<and> endDate_js (simulateGrowth_js {15338} 15333 scenarioWeek) = Some 15340
   \<and> daysBetween_js (Some 15333) (Some 15340) = Some 7"
  by code_simp

text \<open>
  And it fails where the years 0 to 99 are reached: a week from 30 December of the year
  before year 0 (day -719530) steps from 31 December to 1 January 1900, since
  \<^verbatim>\<open>normalizeDate\<close> rebuilds the date from a year read as 1900; the end date is
  6 January 1900, eight points are recorded and \<^verbatim>\<open>daysBetween\<close> is 693968.
\<close>

lemma point_count_two_digit_year:
  "length (labels_js (simulateGrowth_js {} (- 719530) scenarioWeek)) = 8
   \<and> endDate_js (simulateGrowth_js {} (- 719530) scenarioWeek) = Some (- 25562)
   \<and> normalizeDate_js {} (Some (- 719530)) = Some (- 719530)
   \<and> daysBetween_js (Some (- 719530)) (Some (- 25562)) = Some 693968"
  by code_simp

text \<open>
  Claim C2 as amended. The labels and the series have the same length for every input.
  When \<open>timeValue\<close> is a positive integer, the start date is a valid date not before the
  year 100, the end date is a valid date, and the time zone skips no calendar day from
  the start date to the end date, that length is \<open>daysBetween startDate endDate + 1\<close>.
\<close>

theorem simulateGrowth_js_point_count:
  "length (series_js (simulateGrowth_js z now inp))
     = length (labels_js (simulateGrowth_js z now inp))
   \<and> (0 < timeValue inp
        \<and> normalizeDate_js z (Some now) = Some s
        \<and> 100 \<le> getFullYear s
        \<and> getEndDate_js z (Some s) (timeValue inp) (timeUnit inp) = Some e
        \<and> z \<inter> {s..e} = {}
      \<longrightarrow> endDate_js (simulateGrowth_js z now inp) = Some e
          \<and> map_option (\<lambda>n. n + 1) (daysBetween_js (Some s) (Some e))
              = Some (int (length (labels_js (simulateGrowth_js z now inp)))))"
proof -
  have len: "length (series_js (simulateGrowth_js z now inp))
      = length (labels_js (simulateGrowth_js z now inp))"
    by (simp add: simulateGrowth_js_fields length_balanceTrace_js)
  have cnt: "endDate_js (simulateGrowth_js z now inp) = Some e
          \<and> map_option (\<lambda>n. n + 1) (daysBetween_js (Some s) (Some e))
              = Some (int (length (labels_js (simulateGrowth_js z now inp))))"
    if tv: "0 < timeValue inp"
      and start: "normalizeDate_js z (Some now) = Some s"
      and year: "100 \<le> getFullYear s"
      and endv: "getEndDate_js z (Some s) (timeValue inp) (timeUnit inp) = Some e"
      and skip: "z \<inter> {s..e} = {}"
  proof -
    have ys: "100 \<le> YearFromTime s" using year by (simp add: getFullYear_def)
    have rs: "\<bar>s\<bar> \<le> 100000000" using start by (rule normalizeDate_js_range)
    have se: "s < e" and re: "\<bar>e\<bar> \<le> 100000000"
      using getEndDate_js_later [OF tv endv] by simp_all
    have ye: "100 \<le> YearFromTime e"
      using ys se YearFromTime_mono [of s e] by simp
    have days: "loopDays_js z (Some e) (Some s) = map Some [s..e]"
      using loopDays_js_valid [OF ys skip, of s] rs re se by simp
    have "daysBetween_js (Some s) (Some e) = Some (e - s)"
      using ys rs ye re by (rule daysBetween_js_valid)
    moreover have "int (length (labels_js (simulateGrowth_js z now inp))) = e - s + 1"
      using se by (simp add: simulateGrowth_js_fields start endv days)
    moreover have "endDate_js (simulateGrowth_js z now inp) = Some e"
      by (simp add: simulateGrowth_js_fields start endv)
    ultimately show ?thesis by simp
  qed
  from len cnt show ?thesis by blast
qed

text \<open>One week from 15 January 2024: eight points, the last on day 19744.\<close>

theorem simulateGrowth_js_point_count_witness:
  "0 < timeValue scenarioWeek
   \<and> normalizeDate_js {} (Some 19737) = Some 19737
   \<and> 100 \<le> getFullYear 19737
   \<and> getEndDate_js {} (Some 19737) (timeValue scenarioWeek) (timeUnit scenarioWeek) = Some 19744
   \<and> {} \<inter> {19737..19744::int} = {}
   \<and> endDate_js (simulateGrowth_js {} 19737 scenarioWeek) = Some 19744
   \<and> daysBetween_js (Some 19737) (Some 19744) = Some 7
   \<and> length (labels_js (simulateGrowth_js {} 19737 scenarioWeek)) = 8
   \<and> length (series_js (simulateGrowth_js {} 19737 scenarioWeek)) = 8"
proof -
  have h1: "0 < timeValue scenarioWeek" by (simp add: scenarioWeek_def)
  have h2: "normalizeDate_js {} (Some 19737) = Some 19737" by code_simp
  have h3: "100 \<le> getFullYear 19737" by code_simp
  have h4: "getEndDate_js {} (Some 19737) (timeValue scenarioWeek) (timeUnit scenarioWeek)
      = Some 19744"
    by code_simp
  have h5: "{} \<inter> {19737..19744::int} = {}" by simp
  have d: "daysBetween_js (Some 19737) (Some 19744) = Some 7" by code_simp
  note t = simulateGrowth_js_point_count [of "{}" 19737 scenarioWeek 19737 19744]
  from t have len: "length (series_js (simulateGrowth_js {} 19737 scenarioWeek))
      = length (labels_js (simulateGrowth_js {} 19737 scenarioWeek))"
    by (rule conjunct1)
  from t h1 h2 h3 h4 h5
  have e: "endDate_js (simulateGrowth_js {} 19737 scenarioWeek) = Some 19744"
    and c: "map_option (\<lambda>n. n + 1) (daysBetween_js (Some 19737) (Some 19744))
      = Some (int (length (labels_js (simulateGrowth_js {} 19737 scenarioWeek))))"
    by blast+
  from c have l: "length (labels_js (simulateGrowth_js {} 19737 scenarioWeek)) = 8"
    unfolding d by simp
  from h1 h2 h3 h4 h5 e d l len show ?thesis by simp
qed

subsection \<open>C3: interest on the first simulated day\<close>

text \<open>
  Claim C3. The compound anchor lies one period after \<open>startDate\<close>, yet the compounding
  predicate already holds at \<open>startDate\<close>: for \<open>weekly\<close> because the day count from the
  anchor to \<open>startDate\<close> is \<open>-7\<close>, a multiple of 7; for \<open>monthly\<close> whenever the
  day-of-month of \<open>startDate\<close> is at most the length of the following month, so that the
  clamped anchor day is the day of \<open>startDate\<close>. In both cases a loop pass for
  \<open>startDate\<close> applies the interest. When \<open>timeValue\<close> is positive, the simulation makes
  that pass first: the loop starts with the pass for \<open>startDate\<close> and goes on from the day
  after, the first label is the one of \<open>startDate\<close>, and the first recorded balance is
  the starting amount after that day's deposit and the interest.
\<close>

theorem interest_on_first_day:
  "daysBetween (getCompoundAnchor startDate ''weekly'') startDate = - 7
   \<and> isEventDay startDate (getCompoundAnchor startDate ''weekly'') ''weekly''
   \<and> (getDate startDate
          \<le> daysInMonth (getFullYear (addMonths startDate 1)) (getMonth (addMonths startDate 1))
        \<longrightarrow> getDate (getCompoundAnchor startDate ''monthly'') = getDate startDate
          \<and> isEventDay startDate (getCompoundAnchor startDate ''monthly'') ''monthly'')
   \<and> (compoundFrequency inp = ''weekly''
          \<or> compoundFrequency inp = ''monthly''
            \<and> getDate startDate
                \<le> daysInMonth (getFullYear (addMonths startDate 1))
                     (getMonth (addMonths startDate 1))
        \<longrightarrow> balance (loopBody inp startDate
                       (getCompoundAnchor startDate (compoundFrequency inp)) startDate s)
            = applyInterest (depositStep inp startDate startDate (balance s)) (annualRate inp))
   \<and> (0 < timeValue inp \<longrightarrow>
        (let today = normalizeDate now;
             endD = getEndDate today (timeValue inp) (timeUnit inp);
             anchor = getCompoundAnchor today (compoundFrequency inp);
             r = simulateGrowth now inp
         in simulateLoop inp today endD anchor today s
              = simulateLoop inp today endD anchor (addDays today 1)
                  (loopBody inp today anchor today s)
            \<and> labels r \<noteq> []
            \<and> hd (labels r) = toLocaleDateString today
            \<and> series r \<noteq> []
            \<and> (compoundFrequency inp = ''weekly''
                  \<or> compoundFrequency inp = ''monthly''
                    \<and> getDate today
                        \<le> daysInMonth (getFullYear (addMonths today 1))
                             (getMonth (addMonths today 1))
                \<longrightarrow> hd (series r)
                    = toFixed2 (applyInterest
                        (depositStep inp today today (startingAmount inp))
                        (annualRate inp)))))"
proof -
  have w1: "daysBetween (getCompoundAnchor d ''weekly'') d = - 7" for d
    by (simp add: getCompoundAnchor_def addDays_plus daysBetween_diff)
  have w2: "isEventDay d (getCompoundAnchor d ''weekly'') ''weekly''" for d
    by (simp add: isEventDay_def isWeeklyEvent_def w1 js_rem_def)
  have m: "getDate (getCompoundAnchor d ''monthly'') = getDate d
      \<and> isEventDay d (getCompoundAnchor d ''monthly'') ''monthly''"
    if "getDate d \<le> daysInMonth (getFullYear (addMonths d 1)) (getMonth (addMonths d 1))"
    for d
    using that by (simp add: isEventDay_def isMonthlyEvent_at_start monthly_anchor_day)
  have ev: "isEventDay d (getCompoundAnchor d (compoundFrequency inp)) (compoundFrequency inp)"
    if "compoundFrequency inp = ''weekly''
          \<or> compoundFrequency inp = ''monthly''
            \<and> getDate d \<le> daysInMonth (getFullYear (addMonths d 1)) (getMonth (addMonths d 1))"
    for d
    using that w2 [of d] m [of d] by auto
  have b: "balance (loopBody inp d (getCompoundAnchor d (compoundFrequency inp)) d s)
            = applyInterest (depositStep inp d d (balance s)) (annualRate inp)"
    if "compoundFrequency inp = ''weekly''
          \<or> compoundFrequency inp = ''monthly''
            \<and> getDate d \<le> daysInMonth (getFullYear (addMonths d 1)) (getMonth (addMonths d 1))"
    for d
    using ev [OF that] by (simp add: loopBody_fields dayBalance_def)
  have run: "simulateLoop inp now (getEndDate now (timeValue inp) (timeUnit inp))
                (getCompoundAnchor now (compoundFrequency inp)) now s
              = simulateLoop inp now (getEndDate now (timeValue inp) (timeUnit inp))
                  (getCompoundAnchor now (compoundFrequency inp)) (addDays now 1)
                  (loopBody inp now (getCompoundAnchor now (compoundFrequency inp)) now s)
            \<and> labels (simulateGrowth now inp) \<noteq> []
            \<and> hd (labels (simulateGrowth now inp)) = toLocaleDateString now
            \<and> series (simulateGrowth now inp) \<noteq> []
            \<and> (compoundFrequency inp = ''weekly''
                  \<or> compoundFrequency inp = ''monthly''
                    \<and> getDate now
                        \<le> daysInMonth (getFullYear (addMonths now 1))
                             (getMonth (addMonths now 1))
                \<longrightarrow> hd (series (simulateGrowth now inp))
                    = toFixed2 (applyInterest
                        (depositStep inp now now (startingAmount inp))
                        (annualRate inp)))"
    if tv: "0 < timeValue inp"
  proof -
    let ?e = "getEndDate now (timeValue inp) (timeUnit inp)"
    let ?a = "getCompoundAnchor now (compoundFrequency inp)"
    have le: "now \<le> ?e" using tv by (intro getEndDate_ge) simp
    then have days: "[now..?e] = now # [now + 1..?e]" by (rule upto_rec1)
    have step: "simulateLoop inp now ?e ?a now s
        = simulateLoop inp now ?e ?a (addDays now 1) (loopBody inp now ?a now s)"
      using le by (simp add: simulateLoop.simps [of inp now ?e ?a now s])
    have l: "labels (simulateGrowth now inp) \<noteq> []"
      "hd (labels (simulateGrowth now inp)) = toLocaleDateString now"
      by (simp_all add: simulateGrowth_fields days)
    have sr: "series (simulateGrowth now inp) \<noteq> []"
      "hd (series (simulateGrowth now inp))
         = toFixed2 (dayBalance inp now ?a now (startingAmount inp))"
      by (simp_all add: simulateGrowth_fields days)
    have "hd (series (simulateGrowth now inp))
        = toFixed2 (applyInterest (depositStep inp now now (startingAmount inp))
            (annualRate inp))"
      if "compoundFrequency inp = ''weekly''
            \<or> compoundFrequency inp = ''monthly''
              \<and> getDate now
                  \<le> daysInMonth (getFullYear (addMonths now 1)) (getMonth (addMonths now 1))"
      using ev [OF that] by (simp add: sr dayBalance_def)
    with step l sr(1) show ?thesis by blast
  qed
  from w1 [of startDate] w2 [of startDate] m [of startDate] b [of startDate] run
  show ?thesis
    unfolding Let_def normalizeDate_id by blast
qed

text \<open>
  Starting on 15 January 2024 at 10 percent, compounded monthly for a year: the pass for
  the start date turns 1000 into 1100, and 1100 is the first balance of the series.
\<close>

theorem interest_on_first_day_witness:
  "getDate 19737 \<le> daysInMonth (getFullYear (addMonths 19737 1)) (getMonth (addMonths 19737 1))
   \<and> compoundFrequency scenarioMonthlyYear = ''monthly''
   \<and> 0 < timeValue scenarioMonthlyYear
   \<and> isEventDay 19737 (getCompoundAnchor 19737 ''monthly'') ''monthly''
   \<and> balance (loopBody scenarioMonthlyYear 19737 (getCompoundAnchor 19737 ''monthly'') 19737
         \<lparr>labels = [], series = [], balance = 1000\<rparr>)
       = 1100
   \<and> hd (labels (simulateGrowth 19737 scenarioMonthlyYear)) = (2024, 0, 15)
   \<and> hd (series (simulateGrowth 19737 scenarioMonthlyYear)) = 1100"
proof -
  have h: "getDate 19737
      \<le> daysInMonth (getFullYear (addMonths 19737 1)) (getMonth (addMonths 19737 1))"
    by code_simp
  have c: "compoundFrequency scenarioMonthlyYear = ''monthly''"
    by (simp add: scenarioMonthlyYear_def)
  have tv: "0 < timeValue scenarioMonthlyYear"
    by (simp add: scenarioMonthlyYear_def)
  have d: "depositStep scenarioMonthlyYear 19737 19737 1000 = 1000"
    by (simp add: depositStep_def scenarioMonthlyYear_def)
  have st: "startingAmount scenarioMonthlyYear = 1000"
    by (simp add: scenarioMonthlyYear_def)
  have a: "applyInterest 1000 (annualRate scenarioMonthlyYear) = 1100"
    by (simp add: applyInterest_def scenarioMonthlyYear_def)
  have f: "toFixed2 1100 = 1100" by (simp add: toFixed2_def)
  have lab: "toLocaleDateString 19737 = (2024, 0, 15)" by code_simp
  note t = interest_on_first_day [of 19737 scenarioMonthlyYear
      "\<lparr>labels = [], series = [], balance = 1000\<rparr>" 19737,
      unfolded c Let_def normalizeDate_id]
  from t h have e: "isEventDay 19737 (getCompoundAnchor 19737 ''monthly'') ''monthly''"
    by blast
  from t h have "balance (loopBody scenarioMonthlyYear 19737
        (getCompoundAnchor 19737 ''monthly'') 19737
        \<lparr>labels = [], series = [], balance = 1000\<rparr>)
      = applyInterest (depositStep scenarioMonthlyYear 19737 19737
          (balance \<lparr>labels = [], series = [], balance = 1000\<rparr>))
          (annualRate scenarioMonthlyYear)"
    by blast
  then have b: "balance (loopBody scenarioMonthlyYear 19737
        (getCompoundAnchor 19737 ''monthly'') 19737
        \<lparr>labels = [], series = [], balance = 1000\<rparr>) = 1100"
    by (simp add: d a)
  from t tv have "hd (labels (simulateGrowth 19737 scenarioMonthlyYear))
      = toLocaleDateString 19737"
    by blast
  then have l: "hd (labels (simulateGrowth 19737 scenarioMonthlyYear)) = (2024, 0, 15)"
    by (simp add: lab)
  from t tv h have "hd (series (simulateGrowth 19737 scenarioMonthlyYear))
      = toFixed2 (applyInterest
          (depositStep scenarioMonthlyYear 19737 19737 (startingAmount scenarioMonthlyYear))
          (annualRate scenarioMonthlyYear))"
    by blast
  then have s: "hd (series (simulateGrowth 19737 scenarioMonthlyYear)) = 1100"
    by (simp add: st d a f)
  from h c tv e b l s show ?thesis by blast
qed

subsection \<open>C4: frequencies other than weekly and monthly\<close>

text \<open>
  Claim C4 says that a compound frequency that is neither \<open>weekly\<close> nor \<open>monthly\<close>
  compounds on every simulated day. It does not: with the tag \<open>daily\<close> and a rate of 10
  percent, a week from 15 January 2024 compounds on the first day only; 16 January is not
  an event day and all eight recorded balances are 1100. With the tag \<open>weekday\<close>,
  Saturday 20 January is not an event day.
\<close>

theorem daily_compounding_counterexample:
  "0 < annualRate scenarioDailyWeek
   \<and> compoundFrequency scenarioDailyWeek \<noteq> ''weekly''
   \<and> compoundFrequency scenarioDailyWeek \<noteq> ''monthly''
   \<and> \<not> isEventDay 19738 (getCompoundAnchor 19737 (compoundFrequency scenarioDailyWeek))
          (compoundFrequency scenarioDailyWeek)
   \<and> series (simulateGrowth 19737 scenarioDailyWeek)
       = [1100, 1100, 1100, 1100, 1100, 1100, 1100, 1100]
   \<and> \<not> isEventDay 19742 (getCompoundAnchor 19737 ''weekday'') ''weekday''"
  by code_simp

text \<open>
  Claim C4 as amended. When the compound frequency is neither \<open>weekly\<close> nor \<open>monthly\<close>,
  the compound anchor is \<open>startDate\<close> itself and the compounding predicate is what
  \<open>isEventDay\<close> makes of the tag: the weekday predicate for \<open>weekday\<close>, and the monthly
  predicate anchored at \<open>startDate\<close> for every other tag. A loop pass applies the interest
  on exactly the days that satisfy that predicate.
\<close>

theorem other_frequency_compounding:
  assumes "compoundFrequency inp \<noteq> ''weekly''" and "compoundFrequency inp \<noteq> ''monthly''"
  shows "getCompoundAnchor startDate (compoundFrequency inp) = startDate
       \<and> isEventDay d (getCompoundAnchor startDate (compoundFrequency inp)) (compoundFrequency inp)
           = (if compoundFrequency inp = ''weekday'' then isWeekday d
              else isMonthlyEvent d startDate)
       \<and> balance (loopBody inp startDate
                    (getCompoundAnchor startDate (compoundFrequency inp)) d s)
           = (if (if compoundFrequency inp = ''weekday'' then isWeekday d
                  else isMonthlyEvent d startDate)
              then applyInterest (depositStep inp startDate d (balance s)) (annualRate inp)
              else depositStep inp startDate d (balance s))"
  using assms
  by (simp add: getCompoundAnchor_def isEventDay_def loopBody_fields dayBalance_def)

text \<open>With the tag \<open>daily\<close>, the pass for 16 January 2024 leaves a balance of 1100 as it is.\<close>

theorem other_frequency_compounding_witness:
  "compoundFrequency scenarioDailyWeek \<noteq> ''weekly''
   \<and> compoundFrequency scenarioDailyWeek \<noteq> ''monthly''
   \<and> getCompoundAnchor 19737 (compoundFrequency scenarioDailyWeek) = 19737
   \<and> \<not> isMonthlyEvent 19738 19737
   \<and> balance (loopBody scenarioDailyWeek 19737
                (getCompoundAnchor 19737 (compoundFrequency scenarioDailyWeek)) 19738
                \<lparr>labels = [], series = [], balance = 1100\<rparr>)
       = 1100"
proof -
  have h1: "compoundFrequency scenarioDailyWeek \<noteq> ''weekly''"
    and h2: "compoundFrequency scenarioDailyWeek \<noteq> ''monthly''"
    and h3: "compoundFrequency scenarioDailyWeek \<noteq> ''weekday''"
    by (simp_all add: scenarioDailyWeek_def)
  have n: "\<not> isMonthlyEvent 19738 19737" by code_simp
  have d: "depositStep scenarioDailyWeek 19737 19738 1100 = 1100"
    by (simp add: depositStep_def scenarioDailyWeek_def)
  note t = other_frequency_compounding [OF h1 h2, of 19737 19738
      "\<lparr>labels = [], series = [], balance = 1100\<rparr>", unfolded if_not_P [OF h3]]
  from t have a: "getCompoundAnchor 19737 (compoundFrequency scenarioDailyWeek) = 19737"
    by (rule conjunct1)
  from t have "balance (loopBody scenarioDailyWeek 19737
                (getCompoundAnchor 19737 (compoundFrequency scenarioDailyWeek)) 19738
                \<lparr>labels = [], series = [], balance = 1100\<rparr>)
       = (if isMonthlyEvent 19738 19737
          then applyInterest (depositStep scenarioDailyWeek 19737 19738
                 (balance \<lparr>labels = [], series = [], balance = 1100\<rparr>))
                 (annualRate scenarioDailyWeek)
          else depositStep scenarioDailyWeek 19737 19738
                 (balance \<lparr>labels = [], series = [], balance = 1100\<rparr>))"
    by (rule conjunct2 [THEN conjunct2])
  then have b: "balance (loopBody scenarioDailyWeek 19737
                (getCompoundAnchor 19737 (compoundFrequency scenarioDailyWeek)) 19738
                \<lparr>labels = [], series = [], balance = 1100\<rparr>) = 1100"
    using n by (simp add: d)
  from h1 h2 a n b show ?thesis by blast
qed

subsection \<open>C5: unknown frequency tags fall back to monthly\<close>

text \<open>
  Claim C5. For every frequency tag other than \<open>weekday\<close> and \<open>weekly\<close> the event-day
  predicate is the monthly predicate. No tag is rejected: for every input, whatever its
  tags, the simulation returns a result with one series entry per label, one for each day
  from \<open>startDate\<close> to \<open>endDate\<close>, and a final balance that is the last running balance.
\<close>

theorem frequency_fallback:
  "(frequency \<noteq> ''weekday'' \<and> frequency \<noteq> ''weekly''
      \<longrightarrow> isEventDay d startDate frequency = isMonthlyEvent d startDate)
   \<and> length (labels (simulateGrowth now inp)) = length (series (simulateGrowth now inp))
   \<and> int (length (series (simulateGrowth now inp)))
       = max 0 (endDate (simulateGrowth now inp) - normalizeDate now + 1)
   \<and> finalBalance (simulateGrowth now inp)
       = last (startingAmount inp # balanceTrace
           (dayBalance inp (normalizeDate now)
              (getCompoundAnchor (normalizeDate now) (compoundFrequency inp)))
           (startingAmount inp) [normalizeDate now..endDate (simulateGrowth now inp)])"
  by (simp add: isEventDay_def simulateGrowth_fields length_balanceTrace normalizeDate_id
      last_balanceTrace del: last.simps)

text \<open>The tag \<open>fortnightly\<close> is read as monthly: 15 February 2024 matches an anchor on 15 January.\<close>

theorem frequency_fallback_witness:
  "''fortnightly'' \<noteq> ''weekday'' \<and> ''fortnightly'' \<noteq> ''weekly''
   \<and> isEventDay 19768 19737 ''fortnightly'' = isMonthlyEvent 19768 19737
   \<and> isMonthlyEvent 19768 19737"
proof -
  have "isMonthlyEvent 19768 19737" by code_simp
  then show ?thesis
    using frequency_fallback [of "''fortnightly''" 19768 19737] by simp
qed

subsection \<open>C6: the weekly predicate has period 7\<close>

text \<open>
  Claim C6. For every anchor date \<open>A\<close> and every \<open>k\<close>, \<open>isWeeklyEvent\<close> holds at
  \<open>A\<close> plus \<open>7 * k\<close> days and fails at \<open>A\<close> plus \<open>7 * k + r\<close> days for \<open>r\<close> from 1 to 6.
  It is proved for all integers \<open>k\<close>, the non-negative ones of the claim among them.
\<close>

theorem weekly_periodicity:
  "isWeeklyEvent (addDays A (7 * k)) A
   \<and> (1 \<le> r \<and> r \<le> 6 \<longrightarrow> \<not> isWeeklyEvent (addDays A (7 * k + r)) A)"
proof -
  have "(7 * k + r) mod 7 = r" if "1 \<le> r" "r \<le> 6"
    using that by (simp add: mod_pos_pos_trivial)
  then show ?thesis
    by (auto simp add: isWeeklyEvent_iff addDays_plus)
qed

text \<open>Two weeks after 15 January 2024 is an event day, three days later is not.\<close>

theorem weekly_periodicity_witness:
  "(1::int) \<le> 3 \<and> (3::int) \<le> 6
   \<and> isWeeklyEvent (addDays 19737 (7 * 2)) 19737
   \<and> \<not> isWeeklyEvent (addDays 19737 (7 * 2 + 3)) 19737"
  using weekly_periodicity [of 19737 2 3] by simp

subsection \<open>C7: the monthly predicate clamps to the length of the month\<close>

text \<open>
  Claim C7. \<open>isMonthlyEvent\<close> holds iff the day-of-month of the candidate is the minimum of
  the anchor's day-of-month and the length of the candidate's month, where that length is
  28 for February, 29 in a leap year, 30 for April, June, September and November and 31
  otherwise. An anchor on day 31 therefore matches exactly the last day of every month.
\<close>

theorem monthly_clamping:
  "isMonthlyEvent d anchor
     = (getDate d = min (getDate anchor) (daysInMonth (getFullYear d) (getMonth d)))
   \<and> daysInMonth (getFullYear d) (getMonth d) =
       (if getMonth d = 1
        then (if getFullYear d mod 4 = 0
                 \<and> (getFullYear d mod 100 \<noteq> 0 \<or> getFullYear d mod 400 = 0)
              then 29 else 28)
        else if getMonth d = 3 \<or> getMonth d = 5 \<or> getMonth d = 8 \<or> getMonth d = 10 then 30
        else 31)
   \<and> (getDate anchor = 31 \<longrightarrow>
        isMonthlyEvent d anchor = (getDate d = daysInMonth (getFullYear d) (getMonth d)))"
proof -
  have "daysInMonth (getFullYear d) (getMonth d) \<le> 31"
    using getMonth_range [of d] monthLength_bounds(2) [of "getFullYear d" "getMonth d"]
    by (simp add: daysInMonth_table)
  then have "getDate anchor = 31 \<Longrightarrow>
      min (getDate anchor) (daysInMonth (getFullYear d) (getMonth d))
        = daysInMonth (getFullYear d) (getMonth d)"
    by simp
  then show ?thesis
    using daysInMonth_of_date [of d] by (auto simp add: isMonthlyEvent_def Let_def)
qed

text \<open>An anchor on 31 January 2024 matches 29 February 2024.\<close>

theorem monthly_clamping_witness:
  "getDate 19753 = 31
   \<and> getMonth 19782 = 1 \<and> getFullYear 19782 = 2024 \<and> getDate 19782 = 29
   \<and> daysInMonth 2024 1 = 29
   \<and> isMonthlyEvent 19782 19753"
proof -
  have a: "getDate 19753 = 31" by code_simp
  have d: "getMonth 19782 = 1" "getFullYear 19782 = 2024" "getDate 19782 = 29"
    by code_simp+
  note t = monthly_clamping [of 19782 19753, unfolded d]
  from t have dim: "daysInMonth 2024 1 = 29" by simp
  from t a have "isMonthlyEvent 19782 19753 = (29 = daysInMonth 2024 1)" by blast
  with dim have "isMonthlyEvent 19782 19753" by simp
  with a d dim show ?thesis by simp
qed

subsection \<open>C8: adding months\<close>



subsection \<open>C9: recorded points are rounded, the accumulator is not\<close>

text \<open>
  Claim C9, on double-precision numbers. The series is the list of running balances, each
  passed through \<^verbatim>\<open>Number(x.toFixed(2))\<close>. The running balances are computed by
  \<open>dayBalance_js\<close> from the previous balance alone: recording a point leaves the balance
  as it is, and a loop pass computes the new balance from the old one without reading the
  series. The returned \<open>finalBalance\<close> is the last running balance, not rounded, so the
  last series entry is \<open>finalBalance\<close> rounded. The rounding is to two decimals: below
  \<open>10 ^ 21\<close> the recorded number is the double nearest to \<open>toFixed2 x\<close>, within a relative
  error of \<open>2 powi - 53\<close>, where \<open>toFixed2 x\<close> is a whole number of hundredths at most
  half a hundredth away from \<open>x\<close>.
\<close>

theorem series_rounding:
  "(let startDate = normalizeDate_js z (Some now);
        endD = getEndDate_js z startDate (timeValue inp) (timeUnit inp);
        compoundAnchor = getCompoundAnchor_js z startDate (compoundFrequency inp);
        trace = balanceTrace_js (dayBalance_js z inp startDate compoundAnchor)
                  (numberOf (startingAmount inp)) (loopDays_js z endD startDate);
        r = simulateGrowth_js z now inp
    in series_js r = map Number_toFixed2 trace
       \<and> finalBalance_js r = last (numberOf (startingAmount inp) # trace)
       \<and> (series_js r \<noteq> [] \<longrightarrow> last (series_js r) = Number_toFixed2 (finalBalance_js r)))
   \<and> balance_js (recordPoint_js d s) = balance_js s
   \<and> balance_js (loopBody_js z inp startDate' compoundAnchor' d s)
       = dayBalance_js z inp startDate' compoundAnchor' d (balance_js s)
   \<and> (\<bar>x\<bar> < 10 ^ 21 \<longrightarrow>
        Number_toFixed2 (Fin x) = roundD (toFixed2 x)
        \<and> (\<exists>y. Number_toFixed2 (Fin x) = Fin y
               \<and> \<bar>y - toFixed2 x\<bar> \<le> \<bar>toFixed2 x\<bar> * 2 powi (- 53)))
   \<and> (\<exists>n. toFixed2 x = real_of_int n / 100)
   \<and> \<bar>toFixed2 x - x\<bar> \<le> 1 / 200"
proof -
  define trace where "trace = balanceTrace_js
      (dayBalance_js z inp (normalizeDate_js z (Some now))
         (getCompoundAnchor_js z (normalizeDate_js z (Some now)) (compoundFrequency inp)))
      (numberOf (startingAmount inp))
      (loopDays_js z
         (getEndDate_js z (normalizeDate_js z (Some now)) (timeValue inp) (timeUnit inp))
         (normalizeDate_js z (Some now)))"
  have sr: "series_js (simulateGrowth_js z now inp) = map Number_toFixed2 trace"
    by (simp add: simulateGrowth_js_fields trace_def)
  have fb: "finalBalance_js (simulateGrowth_js z now inp)
      = last (numberOf (startingAmount inp) # trace)"
    by (simp only: simulateGrowth_js_fields trace_def)
  have l: "last (series_js (simulateGrowth_js z now inp))
      = Number_toFixed2 (finalBalance_js (simulateGrowth_js z now inp))"
    if "series_js (simulateGrowth_js z now inp) \<noteq> []"
  proof -
    from that have "trace \<noteq> []" by (simp add: sr)
    then show ?thesis unfolding sr fb by (simp add: last_map)
  qed
  have rp: "balance_js (recordPoint_js d s) = balance_js s"
    by (simp add: recordPoint_js_def)
  have lb: "balance_js (loopBody_js z inp startDate' compoundAnchor' d s)
       = dayBalance_js z inp startDate' compoundAnchor' d (balance_js s)"
    by (rule loopBody_js_fields)
  have nt: "Number_toFixed2 (Fin x) = roundD (toFixed2 x)
        \<and> (\<exists>y. Number_toFixed2 (Fin x) = Fin y
               \<and> \<bar>y - toFixed2 x\<bar> \<le> \<bar>toFixed2 x\<bar> * 2 powi (- 53))"
    if "\<bar>x\<bar> < 10 ^ 21"
    using that Number_toFixed2_near [OF that] by simp
  have hu: "\<exists>n. toFixed2 x = real_of_int n / 100"
    using toFixed2_hundredths [of x] by blast
  have er: "\<bar>toFixed2 x - x\<bar> \<le> 1 / 200" by (rule toFixed2_error)
  from sr fb l rp lb nt hu er show ?thesis
    unfolding Let_def trace_def by blast
qed

text \<open>
  2.30 at 15 percent for a week from 15 January 2024: the balance after the first day is
  the double 2.6449999999999996, which stays the final balance, and every recorded entry
  is the double nearest to 2.64.
\<close>

theorem series_rounding_witness:
  "series_js (simulateGrowth_js {} 19737 scenarioCents) \<noteq> []
   \<and> finalBalance_js (simulateGrowth_js {} 19737 scenarioCents)
       = Fin (744501313399685 / 281474976710656)
   \<and> \<bar>744501313399685 / 281474976710656 :: real\<bar> < 10 ^ 21
   \<and> toFixed2 (744501313399685 / 281474976710656) = 264 / 100
   \<and> roundD (264 / 100) = Fin (5944751508129055 / 2251799813685248)
   \<and> last (series_js (simulateGrowth_js {} 19737 scenarioCents))
       = Fin (5944751508129055 / 2251799813685248)"
proof -
  have fb: "finalBalance_js (simulateGrowth_js {} 19737 scenarioCents)
      = Fin (744501313399685 / 281474976710656)"
    by code_simp
  have ne: "series_js (simulateGrowth_js {} 19737 scenarioCents) \<noteq> []"
    by code_simp
  have small: "\<bar>744501313399685 / 281474976710656 :: real\<bar> < 10 ^ 21" by simp
  have tf: "toFixed2 (744501313399685 / 281474976710656) = 264 / 100"
    by (simp add: toFixed2_def)
  have rd: "roundD (264 / 100) = Fin (5944751508129055 / 2251799813685248)"
    by code_simp
  note t = series_rounding [of "{}" 19737 scenarioCents _ _ _ _
      "744501313399685 / 281474976710656", unfolded Let_def]
  from t ne have "last (series_js (simulateGrowth_js {} 19737 scenarioCents))
      = Number_toFixed2 (finalBalance_js (simulateGrowth_js {} 19737 scenarioCents))"
    by blast
  moreover from t small have "Number_toFixed2 (Fin (744501313399685 / 281474976710656))
      = roundD (toFixed2 (744501313399685 / 281474976710656))"
    by blast
  ultimately have "last (series_js (simulateGrowth_js {} 19737 scenarioCents))
      = Fin (5944751508129055 / 2251799813685248)"
    by (simp only: fb tf rd)
  with ne fb small tf rd show ?thesis by blast
qed

subsection \<open>C10: monthly compounding follows the day of the anchor\<close>

text \<open>
  Claim C10. For \<open>monthly\<close> compounding the anchor's day-of-month is the day of
  \<open>startDate\<close> clamped to the length of the following month, and every compounding day
  has the anchor's day-of-month clamped to the length of its own month. If the day of
  \<open>startDate\<close> exceeds the length of the following month, no compounding day has the
  day-of-month of \<open>startDate\<close>.
\<close>

theorem monthly_anchor_shift:
  "getDate (getCompoundAnchor startDate ''monthly'')
     = min (getDate startDate)
         (daysInMonth (getFullYear (addMonths startDate 1)) (getMonth (addMonths startDate 1)))
   \<and> (isEventDay d (getCompoundAnchor startDate ''monthly'') ''monthly''
        \<longrightarrow> getDate d = min (getDate (getCompoundAnchor startDate ''monthly''))
                         (daysInMonth (getFullYear d) (getMonth d)))
   \<and> (daysInMonth (getFullYear (addMonths startDate 1)) (getMonth (addMonths startDate 1))
          < getDate startDate
        \<and> isEventDay d (getCompoundAnchor startDate ''monthly'') ''monthly''
        \<longrightarrow> getDate d \<noteq> getDate startDate)"
proof -
  let ?next = "daysInMonth (getFullYear (addMonths startDate 1)) (getMonth (addMonths startDate 1))"
  let ?a = "getDate (getCompoundAnchor startDate ''monthly'')"
  have a: "?a = min (getDate startDate) ?next" by (rule monthly_anchor_day)
  have e: "getDate d = min ?a (daysInMonth (getFullYear d) (getMonth d))"
    if "isEventDay d (getCompoundAnchor startDate ''monthly'') ''monthly''"
    using that by (simp add: isEventDay_def isMonthlyEvent_def Let_def)
  have n: "getDate d \<noteq> getDate startDate"
    if "?next < getDate startDate"
      "isEventDay d (getCompoundAnchor startDate ''monthly'') ''monthly''"
  proof -
    have "getDate d \<le> ?a" using e [OF that(2)] by simp
    moreover have "?a < getDate startDate" using that(1) a by simp
    ultimately show ?thesis by simp
  qed
  from a e n show ?thesis by blast
qed

text \<open>
  Starting on 31 January 2023 the anchor day is 28, and 28 March 2023 is a compounding
  day although March has 31 days.
\<close>

theorem monthly_anchor_shift_witness:
  "getDate 19388 = 31 \<and> getMonth 19388 = 0
   \<and> daysInMonth (getFullYear (addMonths 19388 1)) (getMonth (addMonths 19388 1)) < getDate 19388
   \<and> getDate (getCompoundAnchor 19388 ''monthly'') = 28
   \<and> isEventDay 19444 (getCompoundAnchor 19388 ''monthly'') ''monthly''
   \<and> getMonth 19444 = 2 \<and> getDate 19444 = 28
   \<and> getDate 19444 \<noteq> getDate 19388"
proof -
  have s: "getDate 19388 = 31" "getMonth 19388 = 0" by code_simp+
  have nx: "daysInMonth (getFullYear (addMonths 19388 1)) (getMonth (addMonths 19388 1)) = 28"
    by code_simp
  have ev: "isEventDay 19444 (getCompoundAnchor 19388 ''monthly'') ''monthly''" by code_simp
  have d: "getMonth 19444 = 2" "getDate 19444 = 28" by code_simp+
  note t = monthly_anchor_shift [of 19388 19444]
  from t have "getDate (getCompoundAnchor 19388 ''monthly'') = min (getDate 19388) 28"
    unfolding nx by (rule conjunct1)
  then have a: "getDate (getCompoundAnchor 19388 ''monthly'') = 28" by (simp add: s)
  have lt: "daysInMonth (getFullYear (addMonths 19388 1)) (getMonth (addMonths 19388 1))
      < getDate 19388"
    by (simp add: nx s)
  from t lt ev have ne: "getDate 19444 \<noteq> getDate 19388" by blast
  from s lt a ev d ne show ?thesis by blast
qed

end
